theory Spec2Isabelle
  imports Complex_Main "HOL-Library.AList"
begin

section \<open>Values of the host language\<close>

text \<open>
  The DSL computes on the values of its host (JavaScript).  A number is an IEEE double in
  the source; here it is a rational or one of the three non-finite values, so rounding is
  not represented and \<open>-0\<close> is identified with \<open>0\<close> (the source's test \<open>r !== 0\<close>
  does not tell them apart either).  An array or an object is a reference into the
  heap, a list of cells in which a reference is an index: two variables can hold the
  same array, and a method that changes it in place changes it for both.  An object is
  the list of its own properties (the key \<open>__proto__\<close> of an object expression, which
  JavaScript takes for the prototype, is a property like the others here).  A function
  object is named by the table slot it was read from.
\<close>

datatype jsnum = Fin rat | NaN | PosInf | NegInf

datatype fnref = CtxBuiltin string | RegBuiltin string | HostFn string

datatype jsval =
    Undefined
  | Null
  | Bool bool
  | Num jsnum
  | Str string
  | ObjRef nat
  | Fn fnref

datatype cell = ArrayCell "jsval list" | ObjectCell "(string \<times> jsval) list"

type_synonym heap = "cell list"

definition cellAt :: "heap \<Rightarrow> nat \<Rightarrow> cell option" where
  "cellAt hp a = (if a < length hp then Some (hp ! a) else None)"

definition alloc :: "cell \<Rightarrow> heap \<Rightarrow> nat \<times> heap" where
  "alloc c hp = (length hp, hp @ [c])"

text \<open>
  Every \<open>throw new Error(...)\<close> of \<open>compiler.ts\<close> is one constructor, named as the
  specification names the failure; \<open>HostError\<close> is an exception raised by the host itself
  (a \<open>TypeError\<close>, or one thrown by an injected function).
\<close>

datatype invalid = TypeMustBeFunction | ConfigRequired | ParamsMustBeArray | BodyMustBeArray

datatype error =
    InvalidConfig
  | InvalidDefinition string invalid
  | FunctionNotFound string
  | UndefinedVariable string
  | UnboundAssignment string
  | NotIterable
  | LoopLimitExceeded
  | UnknownStatement
  | UnknownExpression
  | UnknownFunction string
  | MethodNotAllowed string
  | NullReceiver string
  | UnknownOperator string
  | UnknownUnaryOperator string
  | HostError string

text \<open>A function of the host: it gets the arguments and the heap, and may change the heap.\<close>

type_synonym hostfn = "jsval list \<Rightarrow> heap \<Rightarrow> (error + jsval) \<times> heap"

text \<open>
  What the evaluator leaves to JavaScript: the native operators, property reads
  \<open>obj[key]\<close> on a receiver that is neither null nor undefined, the application of a
  function-valued property to its receiver, the native library behind the builtin
  table (\<open>Math\<close>, \<open>JSON\<close>, \<open>Object\<close>, \<open>Number\<close>, \<open>String\<close>), and the members
  that a plain object inherits from \<open>Object.prototype\<close>, applied to such an object
  (given by the test for its own property names).
\<close>

record host =
  js_binary :: "string \<Rightarrow> heap \<Rightarrow> jsval \<Rightarrow> jsval \<Rightarrow> jsval"
  js_unary :: "string \<Rightarrow> heap \<Rightarrow> jsval \<Rightarrow> jsval"
  js_get :: "heap \<Rightarrow> jsval \<Rightarrow> jsval \<Rightarrow> jsval"
  js_apply :: "fnref \<Rightarrow> jsval \<Rightarrow> hostfn"
  js_native :: "string \<Rightarrow> hostfn"
  js_inherited :: "string \<Rightarrow> (string \<Rightarrow> bool) \<Rightarrow> hostfn"

text \<open>JavaScript truthiness: \<open>undefined\<close>, \<open>null\<close>, \<open>false\<close>, \<open>0\<close>, \<open>NaN\<close> and \<open>""\<close> are falsy.\<close>

fun truthy :: "jsval \<Rightarrow> bool" where
  "truthy Undefined = False"
| "truthy Null = False"
| "truthy (Bool b) = b"
| "truthy (Num x) = (x \<noteq> Fin 0 \<and> x \<noteq> NaN)"
| "truthy (Str s) = (s \<noteq> [])"
| "truthy (ObjRef a) = True"
| "truthy (Fn f) = True"

text \<open>
  The names that every plain object has through its prototype, so that \<open>name in table\<close>
  holds for them whatever the table: the properties of \<open>Object.prototype\<close>.
\<close>

definition objectPrototype :: "string list" where
  "objectPrototype =
    [''constructor'', ''hasOwnProperty'', ''isPrototypeOf'', ''propertyIsEnumerable'',
     ''toLocaleString'', ''toString'', ''valueOf'', ''__proto__'',
     ''__defineGetter__'', ''__defineSetter__'', ''__lookupGetter__'', ''__lookupSetter__'']"

text \<open>
  A table written as an object literal, as \<open>name in table\<close> and \<open>table[name]\<close> see it:
  its own properties first, then the inherited ones.
\<close>

definition plainObject :: "host \<Rightarrow> (string \<rightharpoonup> hostfn) \<Rightarrow> string \<rightharpoonup> hostfn" where
  "plainObject h own name =
    (case own name of
       Some fn \<Rightarrow> Some fn
     | None \<Rightarrow>
        if name \<in> set objectPrototype then Some (js_inherited h name (\<lambda>k. own k \<noteq> None))
        else None)"

section \<open>The type model (types.ts)\<close>

datatype expr =
    ENull
  | BareStr string
  | BareNum jsnum
  | BareBool bool
  | LiteralExpr jsval
  | RefExpr string
  | MemberExpr expr string
  | IndexExpr expr expr
  | BinaryExpr string expr expr
  | UnaryExpr string expr
  | CallExpr string "expr list"
  | MethodExpr string expr "expr list"
  | TernaryExpr expr expr expr
  | ObjectExpr "(string \<times> expr) list"
  | ArrayExpr "expr list"
  | UnknownExpr

text \<open>
  \<open>ENull\<close> is an expression slot holding \<open>null\<close> or \<open>undefined\<close>, \<open>UnknownExpr\<close> an object
  with none of the recognised keys.  An absent \<open>arguments\<close>, \<open>then\<close> or \<open>do\<close> is
  the empty list, as the source's \<open>|| []\<close> makes it.
\<close>

datatype stmt =
    LetStmt string expr
  | SetStmt string expr
  | IfStmt expr "stmt list" "stmt list option"
  | ForStmt string expr "stmt list"
  | WhileStmt expr "stmt list"
  | ReturnStmt expr
  | UnknownStmt

record paramdef =
  pd_name :: string
  pd_type :: "string option"
  pd_required :: "bool option"
  pd_default :: "jsval option"

datatype params = Names "string list" | Descs "paramdef list"

text \<open>
  A definition as \<open>load\<close> receives it, before validation: \<open>fd_config\<close> may be absent, and
  \<open>fc_params\<close> and \<open>fc_body\<close> are \<open>None\<close> when the field is absent or is not an array.
\<close>

record fconfig =
  fc_debug :: bool
  fc_params :: "params option"
  fc_body :: "stmt list option"
  fc_return :: "expr option"

record fdef =
  fd_type :: string
  fd_config :: "fconfig option"

text \<open>The discriminator that \<open>interface FunctionDef\<close> of \<open>types.ts\<close> declares.\<close>

definition FunctionDef_type :: string where
  "FunctionDef_type = ''CALLBACK''"

record dslconfig =
  cfg_functions :: "(string \<times> fdef) list option"

type_synonym scope = "string \<rightharpoonup> jsval"

section \<open>Execution context, closures and the compiler object\<close>

record execution_context =
  ctx_variables :: "(string \<times> jsval) list option"
  ctx_functions :: "(string \<rightharpoonup> hostfn) option"
  ctx_builtins :: "(string \<rightharpoonup> hostfn) option"
  ctx_onCall :: bool
  ctx_onReturn :: bool

text \<open>The closure \<open>compiledFn\<close> that \<open>compile\<close> returns: what it captured.\<close>

record closure =
  cl_name :: string
  cl_def :: fdef
  cl_params :: "string list"
  cl_ctx :: "execution_context option"

text \<open>
  What a run can be observed to do besides returning: the calls of host functions and
  hooks, and the debug lines, in the order they happen.
\<close>

datatype event =
    CtxBuiltinCall string "jsval list"
  | BuiltinCall string "jsval list"
  | CtxFunctionCall string "jsval list"
  | MethodCall jsval string "jsval list"
  | OnCall string "jsval list"
  | OnReturn string jsval
  | DebugCalled string "jsval list"
  | DebugReturned string jsval

text \<open>
  The fields of \<open>class JsonDslCompiler\<close>, and with them the part of the host's state
  that a run can change: \<open>effects\<close> is the log of observable events, \<open>heap\<close> the
  store of arrays and objects.  \<open>functionDefs\<close> and \<open>compiledFunctions\<close> are
  \<open>Map\<close>s and \<open>allowedMethods\<close> is a \<open>Set\<close>; \<open>builtins\<close> holds the own
  properties of a plain object, which the source reads with \<open>in\<close> (see \<open>plainObject\<close>),
  as it reads the \<open>builtins\<close> and \<open>functions\<close> of a context.
\<close>

record compiler =
  functionDefs :: "string \<rightharpoonup> fdef"
  compiledFunctions :: "string \<rightharpoonup> closure"
  builtins :: "string \<rightharpoonup> hostfn"
  allowedMethods :: "string set"
  effects :: "event list"
  heap :: heap

datatype build = SrcTs | DistJs

definition maxIterations :: nat where
  "maxIterations = 100000"

definition arg0 :: "jsval list \<Rightarrow> jsval" where
  "arg0 args = (case args of [] \<Rightarrow> Undefined | x # _ \<Rightarrow> x)"

text \<open>\<open>Array.isArray(x)\<close>, and \<open>x.length\<close> of an array or a string (\<open>0\<close> for \<open>len\<close> of anything else).\<close>

definition isArray :: "heap \<Rightarrow> jsval \<Rightarrow> bool" where
  "isArray hp v =
    (case v of
       ObjRef a \<Rightarrow> (case cellAt hp a of Some (ArrayCell xs) \<Rightarrow> True | _ \<Rightarrow> False)
     | _ \<Rightarrow> False)"

definition lengthOf :: "heap \<Rightarrow> jsval \<Rightarrow> nat" where
  "lengthOf hp v =
    (case v of
       Str s \<Rightarrow> length s
     | ObjRef a \<Rightarrow> (case cellAt hp a of Some (ArrayCell xs) \<Rightarrow> length xs | _ \<Rightarrow> 0)
     | _ \<Rightarrow> 0)"

text \<open>The 23 own properties of the object that \<open>createBuiltins\<close> returns.\<close>

definition createBuiltins :: "host \<Rightarrow> string \<rightharpoonup> hostfn" where
  "createBuiltins h = map_of
    [(''abs'', js_native h ''Math.abs''),
     (''floor'', js_native h ''Math.floor''),
     (''ceil'', js_native h ''Math.ceil''),
     (''round'', js_native h ''Math.round''),
     (''min'', js_native h ''Math.min''),
     (''max'', js_native h ''Math.max''),
     (''pow'', js_native h ''Math.pow''),
     (''sqrt'', js_native h ''Math.sqrt''),
     (''random'', js_native h ''Math.random''),
     (''len'', \<lambda>args hp. (Inr (Num (Fin (of_nat (lengthOf hp (arg0 args))))), hp)),
     (''keys'', js_native h ''Object.keys''),
     (''values'', js_native h ''Object.values''),
     (''entries'', js_native h ''Object.entries''),
     (''isArray'', \<lambda>args hp. (Inr (Bool (isArray hp (arg0 args))), hp)),
     (''isNumber'', \<lambda>args hp. (Inr (Bool (case arg0 args of Num x \<Rightarrow> True | _ \<Rightarrow> False)), hp)),
     (''isString'', \<lambda>args hp. (Inr (Bool (case arg0 args of Str s \<Rightarrow> True | _ \<Rightarrow> False)), hp)),
     (''isObject'', \<lambda>args hp.
        (Inr (Bool (case arg0 args of ObjRef a \<Rightarrow> \<not> isArray hp (ObjRef a) | _ \<Rightarrow> False)), hp)),
     (''isNull'', \<lambda>args hp. (Inr (Bool (arg0 args = Null \<or> arg0 args = Undefined)), hp)),
     (''toNumber'', js_native h ''Number''),
     (''toString'', js_native h ''String''),
     (''toJson'', js_native h ''JSON.stringify''),
     (''fromJson'', js_native h ''JSON.parse''),
     (''log'', \<lambda>args hp. (Inr Undefined, hp))]"

definition newCompiler :: "host \<Rightarrow> compiler" where
  "newCompiler h =
    \<lparr> functionDefs = Map.empty,
      compiledFunctions = Map.empty,
      builtins = createBuiltins h,
      allowedMethods = set
        [''length'', ''push'', ''pop'', ''shift'', ''unshift'', ''slice'', ''concat'',
         ''indexOf'', ''includes'', ''find'', ''filter'', ''map'', ''reduce'',
         ''join'', ''split'', ''trim'', ''toLowerCase'', ''toUpperCase'',
         ''substring'', ''charAt'', ''startsWith'', ''endsWith'',
         ''keys'', ''values'', ''entries'', ''hasOwnProperty'',
         ''toString'', ''toFixed''],
      effects = [],
      heap = [] \<rparr>"

definition addBuiltin :: "string \<Rightarrow> hostfn \<Rightarrow> compiler \<Rightarrow> compiler" where
  "addBuiltin name fn K = K\<lparr>builtins := (builtins K)(name \<mapsto> fn)\<rparr>"

section \<open>Loading and compiling\<close>

definition validateFunction :: "string \<Rightarrow> fdef \<Rightarrow> error + unit" where
  "validateFunction name d =
    (if fd_type d \<noteq> ''FUNCTION'' then Inl (InvalidDefinition name TypeMustBeFunction)
     else case fd_config d of
       None \<Rightarrow> Inl (InvalidDefinition name ConfigRequired)
     | Some c \<Rightarrow>
        if fc_params c = None then Inl (InvalidDefinition name ParamsMustBeArray)
        else if fc_body c = None then Inl (InvalidDefinition name BodyMustBeArray)
        else Inr ())"

text \<open>
  The loop of \<open>load\<close>: an entry is stored as soon as it has passed validation, so the
  entries before a rejected one stay in the registry.
\<close>

fun loadEntries :: "(string \<times> fdef) list \<Rightarrow> compiler \<Rightarrow> (error + unit) \<times> compiler" where
  "loadEntries [] K = (Inr (), K)"
| "loadEntries ((name, d) # es) K =
    (case validateFunction name d of
       Inl e \<Rightarrow> (Inl e, K)
     | Inr u \<Rightarrow> loadEntries es (K\<lparr>functionDefs := (functionDefs K)(name \<mapsto> d)\<rparr>))"

definition load :: "dslconfig option \<Rightarrow> compiler \<Rightarrow> (error + unit) \<times> compiler" where
  "load config K =
    (case config of
       None \<Rightarrow> (Inl InvalidConfig, K)
     | Some c \<Rightarrow>
        (case cfg_functions c of
           None \<Rightarrow> (Inl InvalidConfig, K)
         | Some es \<Rightarrow> loadEntries es K))"

definition normalizeParams :: "params option \<Rightarrow> string list" where
  "normalizeParams ps =
    (case ps of
       None \<Rightarrow> []
     | Some (Names ns) \<Rightarrow> if ns = [] then [] else ns
     | Some (Descs ds) \<Rightarrow> if ds = [] then [] else map pd_name ds)"

text \<open>
  \<open>compile\<close> builds the closure and stores it in the cache under the function's name.
  Reading \<open>def.config.params\<close> of a definition without \<open>config\<close> is a \<open>TypeError\<close> of the host.
\<close>

definition compile :: "string \<Rightarrow> execution_context option \<Rightarrow> compiler \<Rightarrow> (error + closure) \<times> compiler" where
  "compile fnName ctx K =
    (case functionDefs K fnName of
       None \<Rightarrow> (Inl (FunctionNotFound fnName), K)
     | Some d \<Rightarrow>
        (case fd_config d of
           None \<Rightarrow> (Inl (HostError ''TypeError''), K)
         | Some c \<Rightarrow>
            (let cl = \<lparr> cl_name = fnName, cl_def = d,
                        cl_params = normalizeParams (fc_params c), cl_ctx = ctx \<rparr>
             in (Inr cl, K\<lparr>compiledFunctions := (compiledFunctions K)(fnName \<mapsto> cl)\<rparr>))))"

definition get :: "string \<Rightarrow> compiler \<Rightarrow> closure option" where
  "get fnName K = compiledFunctions K fnName"

section \<open>The operators\<close>

definition evalBinaryOp :: "host \<Rightarrow> heap \<Rightarrow> string \<Rightarrow> jsval \<Rightarrow> jsval \<Rightarrow> error + jsval" where
  "evalBinaryOp h hp op l r =
    (if op = ''+'' then Inr (js_binary h ''+'' hp l r)
     else if op = ''-'' then Inr (js_binary h ''-'' hp l r)
     else if op = ''*'' then Inr (js_binary h ''*'' hp l r)
     else if op = ''/'' then Inr (if r \<noteq> Num (Fin 0) then js_binary h ''/'' hp l r else Num (Fin 0))
     else if op = ''%'' then Inr (js_binary h ''%'' hp l r)
     else if op = ''=='' then Inr (js_binary h ''=='' hp l r)
     else if op = ''==='' then Inr (js_binary h ''==='' hp l r)
     else if op = ''!='' then Inr (js_binary h ''!='' hp l r)
     else if op = ''!=='' then Inr (js_binary h ''!=='' hp l r)
     else if op = ''<'' then Inr (js_binary h ''<'' hp l r)
     else if op = ''<='' then Inr (js_binary h ''<='' hp l r)
     else if op = ''>'' then Inr (js_binary h ''>'' hp l r)
     else if op = ''>='' then Inr (js_binary h ''>='' hp l r)
     else if op = ''&&'' then Inr (if truthy l then r else l)
     else if op = ''||'' then Inr (if truthy l then l else r)
     else if op = ''&'' then Inr (js_binary h ''&'' hp l r)
     else if op = ''|'' then Inr (js_binary h ''|'' hp l r)
     else if op = ''^'' then Inr (js_binary h ''^'' hp l r)
     else Inl (UnknownOperator op))"

definition evalUnaryOp :: "host \<Rightarrow> heap \<Rightarrow> string \<Rightarrow> jsval \<Rightarrow> error + jsval" where
  "evalUnaryOp h hp op arg =
    (if op = ''!'' then Inr (Bool (\<not> truthy arg))
     else if op = ''-'' then Inr (js_unary h ''-'' hp arg)
     else if op = ''+'' then Inr (js_unary h ''+'' hp arg)
     else if op = ''~'' then Inr (js_unary h ''~'' hp arg)
     else Inl (UnknownUnaryOperator op))"

section \<open>The evaluator\<close>

text \<open>
  A run either raises or returns, and leaves the compiler object (cache, event log and
  heap) as it made it; \<open>None\<close> is a run that has not finished within its fuel.
\<close>

type_synonym 'a res = "((error + 'a) \<times> compiler) option"

definition ok :: "'a \<Rightarrow> compiler \<Rightarrow> 'a res" where
  "ok a K = Some (Inr a, K)"

definition raise :: "error \<Rightarrow> compiler \<Rightarrow> 'a res" where
  "raise e K = Some (Inl e, K)"

definition andThen :: "'a res \<Rightarrow> ('a \<Rightarrow> compiler \<Rightarrow> 'b res) \<Rightarrow> 'b res" where
  "andThen m f =
    (case m of
       None \<Rightarrow> None
     | Some (Inl e, K) \<Rightarrow> Some (Inl e, K)
     | Some (Inr a, K) \<Rightarrow> f a K)"

definition emit :: "event \<Rightarrow> compiler \<Rightarrow> compiler" where
  "emit ev K = K\<lparr>effects := effects K @ [ev]\<rparr>"

text \<open>Calling a host function: the call is observed, then its result or exception comes back.\<close>

definition callHost :: "event \<Rightarrow> hostfn \<Rightarrow> jsval list \<Rightarrow> compiler \<Rightarrow> jsval res" where
  "callHost ev fn args K =
    (case fn args (heap K) of (r, hp) \<Rightarrow> Some (r, emit ev (K\<lparr>heap := hp\<rparr>)))"

text \<open>A fresh array or object.\<close>

definition allocate :: "cell \<Rightarrow> compiler \<Rightarrow> jsval res" where
  "allocate c K = (case alloc c (heap K) of (a, hp) \<Rightarrow> ok (ObjRef a) (K\<lparr>heap := hp\<rparr>))"

text \<open>
  \<open>context?.builtins && name in context.builtins\<close> and the same for \<open>functions\<close>:
  what the name gives in the table of the context, if there is a context, it has the
  table and the name is \<open>in\<close> it.
\<close>

definition ctxBuiltin :: "host \<Rightarrow> execution_context option \<Rightarrow> string \<Rightarrow> hostfn option" where
  "ctxBuiltin h ctx name =
    (case ctx of
       None \<Rightarrow> None
     | Some c \<Rightarrow> (case ctx_builtins c of None \<Rightarrow> None | Some t \<Rightarrow> plainObject h t name))"

definition ctxFunction :: "host \<Rightarrow> execution_context option \<Rightarrow> string \<Rightarrow> hostfn option" where
  "ctxFunction h ctx name =
    (case ctx of
       None \<Rightarrow> None
     | Some c \<Rightarrow> (case ctx_functions c of None \<Rightarrow> None | Some t \<Rightarrow> plainObject h t name))"

definition seedScope :: "execution_context option \<Rightarrow> scope" where
  "seedScope ctx =
    (case ctx of
       None \<Rightarrow> Map.empty
     | Some c \<Rightarrow>
        (case ctx_variables c of
           None \<Rightarrow> Map.empty
         | Some kvs \<Rightarrow> foldl (\<lambda>sc (k, v). sc(k \<mapsto> v)) Map.empty kvs))"

fun bindParams :: "string list \<Rightarrow> jsval list \<Rightarrow> scope \<Rightarrow> scope" where
  "bindParams [] args sc = sc"
| "bindParams (p # ps) args sc = bindParams ps (tl args) (sc(p \<mapsto> arg0 args))"

definition hasOnCall :: "execution_context option \<Rightarrow> bool" where
  "hasOnCall ctx = (case ctx of None \<Rightarrow> False | Some c \<Rightarrow> ctx_onCall c)"

definition hasOnReturn :: "execution_context option \<Rightarrow> bool" where
  "hasOnReturn ctx = (case ctx of None \<Rightarrow> False | Some c \<Rightarrow> ctx_onReturn c)"

text \<open>
  The test \<open>else if (def.config.return)\<close> is on the expression node itself: a bare \<open>0\<close>,
  \<open>false\<close> or \<open>""\<close> in the \<open>return\<close> slot is falsy, every object is truthy.
\<close>

fun exprTruthy :: "expr \<Rightarrow> bool" where
  "exprTruthy ENull = False"
| "exprTruthy (BareStr s) = (s \<noteq> [])"
| "exprTruthy (BareNum x) = (x \<noteq> Fin 0 \<and> x \<noteq> NaN)"
| "exprTruthy (BareBool b) = b"
| "exprTruthy e = True"

text \<open>
  The loops of the evaluator, over the function that handles one element:
  \<open>arguments.map(a => this.evalExpr(a, scope, context))\<close>, the loop over
  \<open>Object.entries(e.properties)\<close>, the statement loop of \<open>executeBlock\<close>, and the
  \<open>for\<close> and \<open>while\<close> loops of \<open>executeStmt\<close>.  \<open>for ... of\<close> visits the
  characters of a string (\<open>forLoop\<close>) and the elements of an array (\<open>forOfArray\<close>);
  the array is read anew at every step, so elements that the body appends are visited
  too, and the loop has fuel: one unit for each step.
\<close>

fun evalList :: "(expr \<Rightarrow> compiler \<Rightarrow> jsval res) \<Rightarrow> expr list \<Rightarrow> compiler \<Rightarrow> jsval list res" where
  "evalList ev [] K = ok [] K"
| "evalList ev (a # as) K =
    andThen (ev a K) (\<lambda>v K1.
    andThen (evalList ev as K1) (\<lambda>vs K2. ok (v # vs) K2))"

fun evalProps :: "(expr \<Rightarrow> compiler \<Rightarrow> jsval res) \<Rightarrow> (string \<times> expr) list \<Rightarrow> (string \<times> jsval) list \<Rightarrow> compiler \<Rightarrow> (string \<times> jsval) list res" where
  "evalProps ev [] result K = ok result K"
| "evalProps ev ((key, valExpr) # rest) result K =
    andThen (ev valExpr K) (\<lambda>v K1. evalProps ev rest (AList.update key v result) K1)"

fun blockLoop :: "(stmt \<Rightarrow> scope \<Rightarrow> compiler \<Rightarrow> (jsval option \<times> scope) res) \<Rightarrow> stmt list \<Rightarrow> scope \<Rightarrow> compiler \<Rightarrow> (jsval option \<times> scope) res" where
  "blockLoop ex [] scope K = ok (None, scope) K"
| "blockLoop ex (s # rest) scope K =
    andThen (ex s scope K) (\<lambda>(result, scope1) K1.
      case result of
        Some v \<Rightarrow> ok (Some v, scope1) K1
      | None \<Rightarrow> blockLoop ex rest scope1 K1)"

fun forLoop :: "(scope \<Rightarrow> compiler \<Rightarrow> (jsval option \<times> scope) res) \<Rightarrow> string \<Rightarrow> jsval list \<Rightarrow> scope \<Rightarrow> compiler \<Rightarrow> (jsval option \<times> scope) res" where
  "forLoop blk item [] scope K = ok (None, scope) K"
| "forLoop blk item (x # rest) scope K =
    andThen (blk (scope(item \<mapsto> x)) K) (\<lambda>(result, scope1) K1.
      case result of
        Some v \<Rightarrow> ok (Some v, scope1) K1
      | None \<Rightarrow> forLoop blk item rest scope1 K1)"

fun forOfArray :: "(scope \<Rightarrow> compiler \<Rightarrow> (jsval option \<times> scope) res) \<Rightarrow> string \<Rightarrow> nat \<Rightarrow> nat \<Rightarrow> nat \<Rightarrow> scope \<Rightarrow> compiler \<Rightarrow> (jsval option \<times> scope) res" where
  "forOfArray blk item a 0 index scope K = None"
| "forOfArray blk item a (Suc k) index scope K =
    (case cellAt (heap K) a of
       Some (ArrayCell xs) \<Rightarrow>
        if index < length xs then
          andThen (blk (scope(item \<mapsto> xs ! index)) K) (\<lambda>(result, scope1) K1.
            case result of
              Some v \<Rightarrow> ok (Some v, scope1) K1
            | None \<Rightarrow> forOfArray blk item a k (Suc index) scope1 K1)
        else ok (None, scope) K
     | _ \<Rightarrow> ok (None, scope) K)"

text \<open>
  The \<open>while\<close> loop is the one place where the two builds differ:
  \<open>dist/compiler.js\<close> counts the iterations and throws beyond \<open>maxIterations\<close>,
  \<open>src/compiler.ts\<close> has no counter.  The first number is the fuel of the loop: one
  unit for each test of the guard.
\<close>

fun whileLoop :: "build \<Rightarrow> (scope \<Rightarrow> compiler \<Rightarrow> jsval res) \<Rightarrow> (scope \<Rightarrow> compiler \<Rightarrow> (jsval option \<times> scope) res) \<Rightarrow> nat \<Rightarrow> nat \<Rightarrow> scope \<Rightarrow> compiler \<Rightarrow> (jsval option \<times> scope) res" where
  "whileLoop b guard blk 0 iterations scope K = None"
| "whileLoop b guard blk (Suc k) iterations scope K =
    andThen (guard scope K) (\<lambda>g K1.
      if truthy g then
        (if b = DistJs \<and> Suc iterations > maxIterations then raise LoopLimitExceeded K1
         else
          andThen (blk scope K1) (\<lambda>(result, scope1) K2.
            case result of
              Some v \<Rightarrow> ok (Some v, scope1) K2
            | None \<Rightarrow> whileLoop b guard blk k (Suc iterations) scope1 K2))
      else ok (None, scope) K1)"

text \<open>
  \<open>evalExpr\<close> and \<open>executeStmt\<close> of the source, and \<open>invoke\<close> for the body of the
  closure \<open>compiledFn\<close>.  Each nested call of one of the three spends one unit of fuel;
  \<open>blockLoop (\<lambda>s sc. executeStmt b h n s sc ctx)\<close> is the call of \<open>executeBlock\<close>,
  defined below, and a \<open>while\<close> loop or a \<open>for\<close> loop over an array may take as many
  steps as it has fuel.
\<close>

fun evalExpr :: "build \<Rightarrow> host \<Rightarrow> nat \<Rightarrow> expr \<Rightarrow> scope \<Rightarrow> execution_context option \<Rightarrow> compiler \<Rightarrow> jsval res"
  and executeStmt :: "build \<Rightarrow> host \<Rightarrow> nat \<Rightarrow> stmt \<Rightarrow> scope \<Rightarrow> execution_context option \<Rightarrow> compiler \<Rightarrow> (jsval option \<times> scope) res"
  and invoke :: "build \<Rightarrow> host \<Rightarrow> nat \<Rightarrow> closure \<Rightarrow> jsval list \<Rightarrow> compiler \<Rightarrow> jsval res"
where
  "evalExpr b h 0 expr scope ctx K = None"
| "evalExpr b h (Suc n) expr scope ctx K =
    (case expr of
       ENull \<Rightarrow> ok Null K
     | BareStr s \<Rightarrow>
        (if scope s \<noteq> None then ok (case scope s of Some v \<Rightarrow> v | None \<Rightarrow> Undefined) K
         else if ctxBuiltin h ctx s \<noteq> None then ok (Fn (CtxBuiltin s)) K
         else if plainObject h (builtins K) s \<noteq> None then ok (Fn (RegBuiltin s)) K
         else raise (UndefinedVariable s) K)
     | BareNum x \<Rightarrow> ok (Num x) K
     | BareBool v \<Rightarrow> ok (Bool v) K
     | LiteralExpr v \<Rightarrow> ok v K
     | RefExpr r \<Rightarrow>
        (if scope r \<noteq> None then ok (case scope r of Some v \<Rightarrow> v | None \<Rightarrow> Undefined) K
         else if ctxBuiltin h ctx r \<noteq> None then ok (Fn (CtxBuiltin r)) K
         else if plainObject h (builtins K) r \<noteq> None then ok (Fn (RegBuiltin r)) K
         else raise (UndefinedVariable r) K)
     | BinaryExpr op l r \<Rightarrow>
        andThen (evalExpr b h n l scope ctx K) (\<lambda>left K1.
        andThen (evalExpr b h n r scope ctx K1) (\<lambda>right K2.
          Some (evalBinaryOp h (heap K2) op left right, K2)))
     | UnaryExpr op a \<Rightarrow>
        andThen (evalExpr b h n a scope ctx K) (\<lambda>arg K1.
          Some (evalUnaryOp h (heap K1) op arg, K1))
     | MemberExpr object property \<Rightarrow>
        andThen (evalExpr b h n object scope ctx K) (\<lambda>obj K1.
          if obj = Null \<or> obj = Undefined then ok Undefined K1
          else ok (js_get h (heap K1) obj (Str property)) K1)
     | IndexExpr object index \<Rightarrow>
        andThen (evalExpr b h n object scope ctx K) (\<lambda>obj K1.
        andThen (evalExpr b h n index scope ctx K1) (\<lambda>idx K2.
          if obj = Null \<or> obj = Undefined then ok Undefined K2
          else ok (js_get h (heap K2) obj idx) K2))
     | CallExpr fnName arguments \<Rightarrow>
        andThen (evalList (\<lambda>a. evalExpr b h n a scope ctx) arguments K) (\<lambda>args K1.
          case ctxBuiltin h ctx fnName of
            Some fn \<Rightarrow> callHost (CtxBuiltinCall fnName args) fn args K1
          | None \<Rightarrow>
          (case plainObject h (builtins K1) fnName of
            Some fn \<Rightarrow> callHost (BuiltinCall fnName args) fn args K1
          | None \<Rightarrow>
          (case ctxFunction h ctx fnName of
            Some fn \<Rightarrow> callHost (CtxFunctionCall fnName args) fn args K1
          | None \<Rightarrow>
          (case compiledFunctions K1 fnName of
            Some compiledFn \<Rightarrow> invoke b h n compiledFn args K1
          | None \<Rightarrow>
            if functionDefs K1 fnName \<noteq> None then
              (case compile fnName ctx K1 of
                 (Inl e, K2) \<Rightarrow> raise e K2
               | (Inr fn, K2) \<Rightarrow> invoke b h n fn args K2)
            else raise (UnknownFunction fnName) K1))))
     | MethodExpr methodName object arguments \<Rightarrow>
        andThen (evalExpr b h n object scope ctx K) (\<lambda>obj K1.
          if methodName \<notin> allowedMethods K1 then raise (MethodNotAllowed methodName) K1
          else if obj = Null \<or> obj = Undefined then raise (NullReceiver methodName) K1
          else
            (case js_get h (heap K1) obj (Str methodName) of
               Fn f \<Rightarrow>
                andThen (evalList (\<lambda>a. evalExpr b h n a scope ctx) arguments K1) (\<lambda>args K2.
                  callHost (MethodCall obj methodName args) (js_apply h f obj) args K2)
             | method \<Rightarrow> ok method K1))
     | TernaryExpr condition thenE elseE \<Rightarrow>
        andThen (evalExpr b h n condition scope ctx K) (\<lambda>cond K1.
          if truthy cond then evalExpr b h n thenE scope ctx K1
          else evalExpr b h n elseE scope ctx K1)
     | ObjectExpr properties \<Rightarrow>
        andThen (evalProps (\<lambda>a. evalExpr b h n a scope ctx) properties [] K)
          (\<lambda>result K1. allocate (ObjectCell result) K1)
     | ArrayExpr elements \<Rightarrow>
        andThen (evalList (\<lambda>a. evalExpr b h n a scope ctx) elements K) (\<lambda>vs K1. allocate (ArrayCell vs) K1)
     | UnknownExpr \<Rightarrow> raise UnknownExpression K)"
| "executeStmt b h 0 s scope ctx K = None"
| "executeStmt b h (Suc n) s scope ctx K =
    (case s of
       LetStmt name valueE \<Rightarrow>
        andThen (evalExpr b h n valueE scope ctx K) (\<lambda>v K1. ok (None, scope(name \<mapsto> v)) K1)
     | SetStmt name valueE \<Rightarrow>
        if scope name = None then raise (UnboundAssignment name) K
        else andThen (evalExpr b h n valueE scope ctx K) (\<lambda>v K1. ok (None, scope(name \<mapsto> v)) K1)
     | IfStmt condE thenB elseB \<Rightarrow>
        andThen (evalExpr b h n condE scope ctx K) (\<lambda>cond K1.
          if truthy cond then blockLoop (\<lambda>s sc. executeStmt b h n s sc ctx) thenB scope K1
          else (case elseB of
                  Some eb \<Rightarrow> blockLoop (\<lambda>s sc. executeStmt b h n s sc ctx) eb scope K1
                | None \<Rightarrow> ok (None, scope) K1))
     | ForStmt item inE doB \<Rightarrow>
        andThen (evalExpr b h n inE scope ctx K) (\<lambda>iterable K1.
          if \<not> truthy iterable then raise NotIterable K1
          else (case iterable of
                  Str s \<Rightarrow>
                   forLoop (blockLoop (\<lambda>s sc. executeStmt b h n s sc ctx) doB) item
                     (map (\<lambda>c. Str [c]) s) scope K1
                | ObjRef a \<Rightarrow>
                   if isArray (heap K1) iterable then
                     forOfArray (blockLoop (\<lambda>s sc. executeStmt b h n s sc ctx) doB) item a n 0 scope K1
                   else raise NotIterable K1
                | _ \<Rightarrow> raise NotIterable K1))
     | WhileStmt guard doB \<Rightarrow>
        whileLoop b (\<lambda>sc. evalExpr b h n guard sc ctx)
          (blockLoop (\<lambda>s sc. executeStmt b h n s sc ctx) doB) n 0 scope K
     | ReturnStmt e \<Rightarrow>
        andThen (evalExpr b h n e scope ctx K) (\<lambda>v K1. ok (Some v, scope) K1)
     | UnknownStmt \<Rightarrow> raise UnknownStatement K)"
| "invoke b h 0 cl args K = None"
| "invoke b h (Suc n) cl args K =
    (let ctx = cl_ctx cl;
         scope = bindParams (cl_params cl) args (seedScope ctx);
         K1 = (if hasOnCall ctx then emit (OnCall (cl_name cl) args) K else K)
     in case fd_config (cl_def cl) of
          None \<Rightarrow> raise (HostError ''TypeError'') K1
        | Some c \<Rightarrow>
           (let K2 = (if fc_debug c then emit (DebugCalled (cl_name cl) args) K1 else K1)
            in case fc_body c of
                 None \<Rightarrow> raise (HostError ''TypeError'') K2
               | Some body \<Rightarrow>
                  andThen (blockLoop (\<lambda>s sc. executeStmt b h n s sc ctx) body scope K2)
                    (\<lambda>(result, scope1) K3.
                  andThen (case result of
                             Some v \<Rightarrow> ok v K3
                           | None \<Rightarrow>
                              (case fc_return c of
                                 None \<Rightarrow> ok Undefined K3
                               | Some e \<Rightarrow>
                                  if exprTruthy e then evalExpr b h n e scope1 ctx K3
                                  else ok Undefined K3))
                    (\<lambda>returnValue K4.
                      let K5 = (if fc_debug c then emit (DebugReturned (cl_name cl) returnValue) K4 else K4);
                          K6 = (if hasOnReturn ctx then emit (OnReturn (cl_name cl) returnValue) K5 else K5)
                      in ok returnValue K6))))"

text \<open>\<open>executeBlock\<close> of the source: the statement loop over \<open>executeStmt\<close>.\<close>

definition executeBlock :: "build \<Rightarrow> host \<Rightarrow> nat \<Rightarrow> stmt list \<Rightarrow> scope \<Rightarrow> execution_context option \<Rightarrow> compiler \<Rightarrow> (jsval option \<times> scope) res" where
  "executeBlock b h n statements scope ctx K =
    blockLoop (\<lambda>s sc. executeStmt b h n s sc ctx) statements scope K"

section \<open>Calls that do not reach the cache\<close>

text \<open>
  The names that a call resolves before it looks at the cache of compiled closures:
  those \<open>in\<close> the builtins of the context, \<open>in\<close> the builtins of the registry or
  \<open>in\<close> the functions of the context.
\<close>

definition beforeCache :: "host \<Rightarrow> execution_context option \<Rightarrow> (string \<rightharpoonup> hostfn) \<Rightarrow> string \<Rightarrow> bool" where
  "beforeCache h ctx table name =
    (ctxBuiltin h ctx name \<noteq> None \<or> plainObject h table name \<noteq> None \<or> ctxFunction h ctx name \<noteq> None)"

text \<open>Every function call in the expression, statement or function is of a name with \<open>P\<close>.\<close>

primrec callsOnly :: "(string \<Rightarrow> bool) \<Rightarrow> expr \<Rightarrow> bool" where
  "callsOnly P ENull = True"
| "callsOnly P (BareStr s) = True"
| "callsOnly P (BareNum x) = True"
| "callsOnly P (BareBool v) = True"
| "callsOnly P (LiteralExpr v) = True"
| "callsOnly P (RefExpr s) = True"
| "callsOnly P (MemberExpr e p) = callsOnly P e"
| "callsOnly P (IndexExpr e i) = (callsOnly P e \<and> callsOnly P i)"
| "callsOnly P (BinaryExpr op l r) = (callsOnly P l \<and> callsOnly P r)"
| "callsOnly P (UnaryExpr op a) = callsOnly P a"
| "callsOnly P (CallExpr f es) = (P f \<and> list_all (\<lambda>x. x) (map (callsOnly P) es))"
| "callsOnly P (MethodExpr m e es) = (callsOnly P e \<and> list_all (\<lambda>x. x) (map (callsOnly P) es))"
| "callsOnly P (TernaryExpr c t e) = (callsOnly P c \<and> callsOnly P t \<and> callsOnly P e)"
| "callsOnly P (ObjectExpr ps) = list_all snd (map (map_prod (\<lambda>k. k) (callsOnly P)) ps)"
| "callsOnly P (ArrayExpr es) = list_all (\<lambda>x. x) (map (callsOnly P) es)"
| "callsOnly P UnknownExpr = True"

primrec stmtCallsOnly :: "(string \<Rightarrow> bool) \<Rightarrow> stmt \<Rightarrow> bool" where
  "stmtCallsOnly P (LetStmt x e) = callsOnly P e"
| "stmtCallsOnly P (SetStmt x e) = callsOnly P e"
| "stmtCallsOnly P (IfStmt c t el) =
    (callsOnly P c \<and> list_all (\<lambda>x. x) (map (stmtCallsOnly P) t)
     \<and> (case map_option (map (stmtCallsOnly P)) el of None \<Rightarrow> True | Some bs \<Rightarrow> list_all (\<lambda>x. x) bs))"
| "stmtCallsOnly P (ForStmt item src body) =
    (callsOnly P src \<and> list_all (\<lambda>x. x) (map (stmtCallsOnly P) body))"
| "stmtCallsOnly P (WhileStmt g body) =
    (callsOnly P g \<and> list_all (\<lambda>x. x) (map (stmtCallsOnly P) body))"
| "stmtCallsOnly P (ReturnStmt e) = callsOnly P e"
| "stmtCallsOnly P UnknownStmt = True"

definition configCallsOnly :: "(string \<Rightarrow> bool) \<Rightarrow> fconfig \<Rightarrow> bool" where
  "configCallsOnly P c =
    ((case fc_body c of None \<Rightarrow> True | Some bs \<Rightarrow> list_all (stmtCallsOnly P) bs)
     \<and> (case fc_return c of None \<Rightarrow> True | Some e \<Rightarrow> callsOnly P e))"

section \<open>States that differ in the cache and the log only\<close>

text \<open>
  The tables that evaluation reads and never writes: the loaded definitions, the
  builtins of the registry and the whitelist.  A run keeps them when the compiler
  object it leaves behind has the tables it started with.
\<close>

definition sameTables :: "compiler \<Rightarrow> compiler \<Rightarrow> bool" where
  "sameTables K K' =
    (functionDefs K' = functionDefs K \<and> builtins K' = builtins K \<and> allowedMethods K' = allowedMethods K)"

definition keepsTables :: "'a res \<Rightarrow> compiler \<Rightarrow> bool" where
  "keepsTables m K = (case m of None \<Rightarrow> True | Some (r, K') \<Rightarrow> sameTables K K')"

text \<open>
  Two states with the same tables and the same heap, which may differ in the cache of
  compiled closures and in the event log; and two runs that end alike: neither, or
  both with the same result and in such states.
\<close>

definition sameWorld :: "compiler \<Rightarrow> compiler \<Rightarrow> bool" where
  "sameWorld K K' = (sameTables K K' \<and> heap K' = heap K)"

definition agree :: "'a res \<Rightarrow> 'a res \<Rightarrow> bool" where
  "agree m m' =
    (case m of
       None \<Rightarrow> m' = None
     | Some (r, K) \<Rightarrow> (case m' of None \<Rightarrow> False | Some (r', K') \<Rightarrow> r' = r \<and> sameWorld K K'))"

section \<open>A host for the examples\<close>

text \<open>
  The examples run on a host that knows the arithmetic and the comparisons of finite
  numbers (they use integers and dyadic fractions only, on which doubles are exact),
  \<open>push\<close> on an array, and two members that a table inherits: \<open>constructor\<close>,
  which is \<open>Object\<close>, called without a value, and \<open>hasOwnProperty\<close>, called with a
  string.  Every other host operation is a placeholder that the examples do not reach.
\<close>

definition numBinary :: "string \<Rightarrow> heap \<Rightarrow> jsval \<Rightarrow> jsval \<Rightarrow> jsval" where
  "numBinary op hp l r =
    (case (l, r) of
       (Num (Fin x), Num (Fin y)) \<Rightarrow>
         (if op = ''+'' then Num (Fin (x + y))
          else if op = ''-'' then Num (Fin (x - y))
          else if op = ''*'' then Num (Fin (x * y))
          else if op = ''<='' then Bool (x \<le> y)
          else if op = ''<'' then Bool (x < y)
          else Undefined)
     | _ \<Rightarrow> Undefined)"

definition arrayGet :: "heap \<Rightarrow> jsval \<Rightarrow> jsval \<Rightarrow> jsval" where
  "arrayGet hp obj key =
    (if isArray hp obj \<and> key = Str ''push'' then Fn (HostFn ''Array.prototype.push'') else Undefined)"

definition arrayApply :: "fnref \<Rightarrow> jsval \<Rightarrow> hostfn" where
  "arrayApply f obj args hp =
    (case obj of
       ObjRef a \<Rightarrow>
        (case cellAt hp a of
           Some (ArrayCell xs) \<Rightarrow>
            if f = HostFn ''Array.prototype.push''
            then (Inr (Num (Fin (of_nat (length xs + length args)))), hp[a := ArrayCell (xs @ args)])
            else (Inr Undefined, hp)
         | _ \<Rightarrow> (Inr Undefined, hp))
     | _ \<Rightarrow> (Inr Undefined, hp))"

definition objectMember :: "string \<Rightarrow> (string \<Rightarrow> bool) \<Rightarrow> hostfn" where
  "objectMember name own args hp =
    (if name = ''constructor'' \<and> (arg0 args = Undefined \<or> arg0 args = Null)
     then (case alloc (ObjectCell []) hp of (a, hp') \<Rightarrow> (Inr (ObjRef a), hp'))
     else if name = ''hasOwnProperty''
     then (case arg0 args of Str k \<Rightarrow> (Inr (Bool (own k)), hp) | _ \<Rightarrow> (Inr Undefined, hp))
     else (Inr Undefined, hp))"

definition exampleHost :: host where
  "exampleHost =
    \<lparr> js_binary = numBinary,
      js_unary = (\<lambda>op hp v. Undefined),
      js_get = arrayGet,
      js_apply = arrayApply,
      js_native = (\<lambda>name args hp. (Inr Undefined, hp)),
      js_inherited = objectMember \<rparr>"

text \<open>A host whose \<open>+\<close> adds finite numbers, as JavaScript's does (up to rounding).\<close>

definition addsNumbers :: "host \<Rightarrow> bool" where
  "addsNumbers h = (\<forall>hp x y. js_binary h ''+'' hp (Num (Fin x)) (Num (Fin y)) = Num (Fin (x + y)))"

text \<open>What a run returned and what it was observed to do.\<close>

definition observed :: "'a res \<Rightarrow> ((error + 'a) \<times> event list) option" where
  "observed m = map_option (\<lambda>(r, K). (r, effects K)) m"

text \<open>What a run returned.\<close>

definition returned :: "'a res \<Rightarrow> (error + 'a) option" where
  "returned m = map_option fst m"

text \<open>The value bound to \<open>name\<close> in the scope that a block has left, when it completed without \<open>return\<close>.\<close>

definition boundAfter :: "string \<Rightarrow> (jsval option \<times> scope) res \<Rightarrow> jsval option" where
  "boundAfter name m = (case m of Some (Inr (None, sc), K) \<Rightarrow> sc name | _ \<Rightarrow> None)"

text \<open>The cell of the array or object that \<open>name\<close> refers to after such a block.\<close>

definition cellAfter :: "string \<Rightarrow> (jsval option \<times> scope) res \<Rightarrow> cell option" where
  "cellAfter name m =
    (case m of
       Some (Inr (None, sc), K) \<Rightarrow> (case sc name of Some (ObjRef a) \<Rightarrow> cellAt (heap K) a | _ \<Rightarrow> None)
     | _ \<Rightarrow> None)"

text \<open>The compiler object after the host has made an array of the given elements.\<close>

definition withArray :: "jsval list \<Rightarrow> compiler \<Rightarrow> compiler" where
  "withArray xs K = K\<lparr>heap := heap K @ [ArrayCell xs]\<rparr>"

definition constFn :: "string \<Rightarrow> hostfn" where
  "constFn s = (\<lambda>args hp. (Inr (Str s), hp))"

text \<open>A function without parameters and body whose trailing \<open>return\<close> reads the variable \<open>who\<close>.\<close>

definition whoDef :: fdef where
  "whoDef =
    \<lparr> fd_type = ''FUNCTION'',
      fd_config = Some \<lparr> fc_debug = False, fc_params = Some (Names []), fc_body = Some [],
                         fc_return = Some (RefExpr ''who'') \<rparr> \<rparr>"

definition whoContext :: "string \<Rightarrow> execution_context" where
  "whoContext s =
    \<lparr> ctx_variables = Some [(''who'', Str s)],
      ctx_functions = None, ctx_builtins = None, ctx_onCall = False, ctx_onReturn = False \<rparr>"

text \<open>The same definition with the discriminator of \<open>types.ts\<close>, as \<open>demo.ts\<close> writes its functions.\<close>

definition callbackDef :: fdef where
  "callbackDef = whoDef\<lparr>fd_type := ''CALLBACK''\<rparr>"

definition mixedConfig :: "dslconfig option" where
  "mixedConfig = Some \<lparr>cfg_functions = Some [(''first'', whoDef), (''second'', callbackDef)]\<rparr>"

text \<open>
  A compiler object whose only loaded definition is named \<open>hasOwnProperty\<close>, a name that
  the builtin table inherits.
\<close>

definition shadowed :: compiler where
  "shadowed = snd (load (Some \<lparr>cfg_functions = Some [(''hasOwnProperty'', whoDef)]\<rparr>)
                     (newCompiler exampleHost))"

text \<open>
  Three compiler objects for the name \<open>f\<close>: with the definition only; with the definition
  and a closure compiled under a context of its own; and with a registry builtin as well.
\<close>

definition defined :: compiler where
  "defined = snd (load (Some \<lparr>cfg_functions = Some [(''f'', whoDef)]\<rparr>) (newCompiler exampleHost))"

definition cached :: compiler where
  "cached = snd (compile ''f'' (Some (whoContext ''context of the cached closure'')) defined)"

definition registered :: compiler where
  "registered = addBuiltin ''f'' (constFn ''registry builtin'') cached"

definition allTiers :: execution_context where
  "allTiers =
    \<lparr> ctx_variables = Some [(''who'', Str ''current context'')],
      ctx_functions = Some [''f'' \<mapsto> constFn ''context function''],
      ctx_builtins = Some [''f'' \<mapsto> constFn ''context builtin''],
      ctx_onCall = False, ctx_onReturn = False \<rparr>"

definition noBuiltins :: execution_context where
  "noBuiltins = allTiers\<lparr>ctx_builtins := None\<rparr>"

definition variablesOnly :: execution_context where
  "variablesOnly = noBuiltins\<lparr>ctx_functions := None\<rparr>"

text \<open>
  A function that calls itself: \<open>countdown(n) = n <= 0 ? who : countdown(n - 1)\<close>, with
  \<open>who\<close> a variable of the context.
\<close>

definition countdown :: fdef where
  "countdown =
    \<lparr> fd_type = ''FUNCTION'',
      fd_config = Some \<lparr> fc_debug = False, fc_params = Some (Names [''n'']), fc_body = Some [],
        fc_return = Some (TernaryExpr
          (BinaryExpr ''<='' (RefExpr ''n'') (LiteralExpr (Num (Fin 0))))
          (RefExpr ''who'')
          (CallExpr ''countdown'' [BinaryExpr ''-'' (RefExpr ''n'') (LiteralExpr (Num (Fin 1)))])) \<rparr> \<rparr>"

definition counting :: compiler where
  "counting = snd (load (Some \<lparr>cfg_functions = Some [(''countdown'', countdown)]\<rparr>)
                     (newCompiler exampleHost))"

text \<open>
  \<open>calculatePrice\<close> of \<open>demo.ts\<close>, with the tag that validation accepts; \<open>taxRate\<close>
  and \<open>discount\<close> are variables of the context.
\<close>

definition calculatePriceBody :: "stmt list" where
  "calculatePriceBody =
    [LetStmt ''priceWithTax''
       (BinaryExpr ''*'' (RefExpr ''basePrice'')
          (BinaryExpr ''+'' (LiteralExpr (Num (Fin 1))) (RefExpr ''taxRate''))),
     LetStmt ''finalPrice''
       (BinaryExpr ''*'' (RefExpr ''priceWithTax'')
          (BinaryExpr ''-'' (LiteralExpr (Num (Fin 1))) (RefExpr ''discount'')))]"

definition calculatePriceConfig :: fconfig where
  "calculatePriceConfig =
    \<lparr> fc_debug = False, fc_params = Some (Names [''basePrice'']),
      fc_body = Some calculatePriceBody, fc_return = Some (RefExpr ''finalPrice'') \<rparr>"

definition calculatePrice :: fdef where
  "calculatePrice = \<lparr> fd_type = ''FUNCTION'', fd_config = Some calculatePriceConfig \<rparr>"

definition priceContext :: "rat \<Rightarrow> rat \<Rightarrow> execution_context" where
  "priceContext taxRate discount =
    \<lparr> ctx_variables = Some [(''taxRate'', Num (Fin taxRate)), (''discount'', Num (Fin discount))],
      ctx_functions = None, ctx_builtins = None, ctx_onCall = False, ctx_onReturn = False \<rparr>"

definition shop :: compiler where
  "shop = snd (load (Some \<lparr>cfg_functions = Some [(''calculatePrice'', calculatePrice)]\<rparr>)
                 (newCompiler exampleHost))"

text \<open>The body of \<open>sumArray\<close> of \<open>demo.ts\<close>, and the elements \<open>1, 2, 3, 4, 5\<close>.\<close>

definition sumArrayBody :: "stmt list" where
  "sumArrayBody =
    [LetStmt ''total'' (LiteralExpr (Num (Fin 0))),
     ForStmt ''item'' (RefExpr ''items'')
       [SetStmt ''total'' (BinaryExpr ''+'' (RefExpr ''total'') (RefExpr ''item''))]]"

definition sumArray :: fdef where
  "sumArray =
    \<lparr> fd_type = ''FUNCTION'',
      fd_config = Some \<lparr> fc_debug = False, fc_params = Some (Names [''items'']),
                         fc_body = Some sumArrayBody, fc_return = Some (RefExpr ''total'') \<rparr> \<rparr>"

definition oneToFive :: "jsval list" where
  "oneToFive = [Num (Fin 1), Num (Fin 2), Num (Fin 3), Num (Fin 4), Num (Fin 5)]"

definition summing :: compiler where
  "summing = withArray oneToFive
     (snd (load (Some \<lparr>cfg_functions = Some [(''sumArray'', sumArray)]\<rparr>) (newCompiler exampleHost)))"

text \<open>
  A loop that changes an array in place: \<open>copy\<close> is made before the loop, \<open>alias\<close> is
  bound to the same array, and the body pushes every item onto \<open>copy\<close>.
\<close>

definition pushingBody :: "stmt list" where
  "pushingBody =
    [LetStmt ''copy'' (ArrayExpr []),
     LetStmt ''alias'' (RefExpr ''copy''),
     ForStmt ''item'' (RefExpr ''items'')
       [LetStmt ''pushed'' (MethodExpr ''push'' (RefExpr ''copy'') [RefExpr ''item''])]]"

section \<open>Basic facts\<close>

lemma andThen_simps:
  "andThen None f = None"
  "andThen (Some (Inl e, K)) f = Some (Inl e, K)"
  "andThen (Some (Inr a, K)) f = f a K"
  by (simp_all add: andThen_def)

lemma newCompiler_fields:
  "functionDefs (newCompiler h) = Map.empty"
  "compiledFunctions (newCompiler h) = Map.empty"
  "builtins (newCompiler h) = createBuiltins h"
  "effects (newCompiler h) = []"
  by (simp_all add: newCompiler_def)

text \<open>The equations of \<open>evalExpr\<close> and \<open>executeStmt\<close>, one for each shape of node.\<close>

lemma evalExpr_leaf [simp]:
  "evalExpr b h (Suc n) ENull scope ctx K = ok Null K"
  "evalExpr b h (Suc n) (BareNum x) scope ctx K = ok (Num x) K"
  "evalExpr b h (Suc n) (BareBool v) scope ctx K = ok (Bool v) K"
  "evalExpr b h (Suc n) (LiteralExpr w) scope ctx K = ok w K"
  "evalExpr b h (Suc n) UnknownExpr scope ctx K = raise UnknownExpression K"
  by simp_all

lemma evalExpr_name [simp]:
  "evalExpr b h (Suc n) (BareStr s) scope ctx K =
    (if scope s \<noteq> None then ok (case scope s of Some v \<Rightarrow> v | None \<Rightarrow> Undefined) K
     else if ctxBuiltin h ctx s \<noteq> None then ok (Fn (CtxBuiltin s)) K
     else if plainObject h (builtins K) s \<noteq> None then ok (Fn (RegBuiltin s)) K
     else raise (UndefinedVariable s) K)"
  "evalExpr b h (Suc n) (RefExpr s) scope ctx K =
    (if scope s \<noteq> None then ok (case scope s of Some v \<Rightarrow> v | None \<Rightarrow> Undefined) K
     else if ctxBuiltin h ctx s \<noteq> None then ok (Fn (CtxBuiltin s)) K
     else if plainObject h (builtins K) s \<noteq> None then ok (Fn (RegBuiltin s)) K
     else raise (UndefinedVariable s) K)"
  by simp_all

lemma evalExpr_operator [simp]:
  "evalExpr b h (Suc n) (BinaryExpr op l r) scope ctx K =
     andThen (evalExpr b h n l scope ctx K) (\<lambda>left K1.
     andThen (evalExpr b h n r scope ctx K1) (\<lambda>right K2.
       Some (evalBinaryOp h (heap K2) op left right, K2)))"
  "evalExpr b h (Suc n) (UnaryExpr op a) scope ctx K =
     andThen (evalExpr b h n a scope ctx K) (\<lambda>arg K1. Some (evalUnaryOp h (heap K1) op arg, K1))"
  "evalExpr b h (Suc n) (TernaryExpr c t e) scope ctx K =
     andThen (evalExpr b h n c scope ctx K) (\<lambda>cond K1.
       if truthy cond then evalExpr b h n t scope ctx K1 else evalExpr b h n e scope ctx K1)"
  by simp_all

lemma evalExpr_access [simp]:
  "evalExpr b h (Suc n) (MemberExpr object property) scope ctx K =
     andThen (evalExpr b h n object scope ctx K) (\<lambda>obj K1.
       if obj = Null \<or> obj = Undefined then ok Undefined K1
       else ok (js_get h (heap K1) obj (Str property)) K1)"
  "evalExpr b h (Suc n) (IndexExpr object index) scope ctx K =
     andThen (evalExpr b h n object scope ctx K) (\<lambda>obj K1.
     andThen (evalExpr b h n index scope ctx K1) (\<lambda>idx K2.
       if obj = Null \<or> obj = Undefined then ok Undefined K2
       else ok (js_get h (heap K2) obj idx) K2))"
  by simp_all

lemma evalExpr_construct [simp]:
  "evalExpr b h (Suc n) (ObjectExpr properties) scope ctx K =
     andThen (evalProps (\<lambda>a. evalExpr b h n a scope ctx) properties [] K)
       (\<lambda>result K1. allocate (ObjectCell result) K1)"
  "evalExpr b h (Suc n) (ArrayExpr elements) scope ctx K =
     andThen (evalList (\<lambda>a. evalExpr b h n a scope ctx) elements K) (\<lambda>vs K1. allocate (ArrayCell vs) K1)"
  by simp_all

lemma evalExpr_call [simp]:
  "evalExpr b h (Suc n) (CallExpr fnName arguments) scope ctx K =
     andThen (evalList (\<lambda>a. evalExpr b h n a scope ctx) arguments K) (\<lambda>args K1.
       case ctxBuiltin h ctx fnName of
         Some fn \<Rightarrow> callHost (CtxBuiltinCall fnName args) fn args K1
       | None \<Rightarrow>
       (case plainObject h (builtins K1) fnName of
         Some fn \<Rightarrow> callHost (BuiltinCall fnName args) fn args K1
       | None \<Rightarrow>
       (case ctxFunction h ctx fnName of
         Some fn \<Rightarrow> callHost (CtxFunctionCall fnName args) fn args K1
       | None \<Rightarrow>
       (case compiledFunctions K1 fnName of
         Some compiledFn \<Rightarrow> invoke b h n compiledFn args K1
       | None \<Rightarrow>
         if functionDefs K1 fnName \<noteq> None then
           (case compile fnName ctx K1 of
              (Inl e, K2) \<Rightarrow> raise e K2
            | (Inr fn, K2) \<Rightarrow> invoke b h n fn args K2)
         else raise (UnknownFunction fnName) K1))))"
  by simp

lemma evalExpr_method [simp]:
  "evalExpr b h (Suc n) (MethodExpr methodName object arguments) scope ctx K =
     andThen (evalExpr b h n object scope ctx K) (\<lambda>obj K1.
       if methodName \<notin> allowedMethods K1 then raise (MethodNotAllowed methodName) K1
       else if obj = Null \<or> obj = Undefined then raise (NullReceiver methodName) K1
       else
         (case js_get h (heap K1) obj (Str methodName) of
            Fn f \<Rightarrow>
             andThen (evalList (\<lambda>a. evalExpr b h n a scope ctx) arguments K1) (\<lambda>args K2.
               callHost (MethodCall obj methodName args) (js_apply h f obj) args K2)
          | method \<Rightarrow> ok method K1))"
  by simp

lemma executeStmt_assign [simp]:
  "executeStmt b h (Suc n) (LetStmt name e) scope ctx K =
     andThen (evalExpr b h n e scope ctx K) (\<lambda>v K1. ok (None, scope(name \<mapsto> v)) K1)"
  "executeStmt b h (Suc n) (SetStmt name e) scope ctx K =
     (if scope name = None then raise (UnboundAssignment name) K
      else andThen (evalExpr b h n e scope ctx K) (\<lambda>v K1. ok (None, scope(name \<mapsto> v)) K1))"
  "executeStmt b h (Suc n) (ReturnStmt e) scope ctx K =
     andThen (evalExpr b h n e scope ctx K) (\<lambda>v K1. ok (Some v, scope) K1)"
  "executeStmt b h (Suc n) UnknownStmt scope ctx K = raise UnknownStatement K"
  by simp_all

lemma executeStmt_if [simp]:
  "executeStmt b h (Suc n) (IfStmt condE thenB elseB) scope ctx K =
     andThen (evalExpr b h n condE scope ctx K) (\<lambda>cond K1.
       if truthy cond then executeBlock b h n thenB scope ctx K1
       else (case elseB of
               Some eb \<Rightarrow> executeBlock b h n eb scope ctx K1
             | None \<Rightarrow> ok (None, scope) K1))"
  unfolding executeBlock_def by simp

lemma executeStmt_for [simp]:
  "executeStmt b h (Suc n) (ForStmt item inE doB) scope ctx K =
     andThen (evalExpr b h n inE scope ctx K) (\<lambda>iterable K1.
       if \<not> truthy iterable then raise NotIterable K1
       else (case iterable of
               Str s \<Rightarrow>
                forLoop (\<lambda>sc. executeBlock b h n doB sc ctx) item (map (\<lambda>c. Str [c]) s) scope K1
             | ObjRef a \<Rightarrow>
                if isArray (heap K1) iterable then
                  forOfArray (\<lambda>sc. executeBlock b h n doB sc ctx) item a n 0 scope K1
                else raise NotIterable K1
             | _ \<Rightarrow> raise NotIterable K1))"
  unfolding executeBlock_def by simp

lemma executeStmt_while [simp]:
  "executeStmt b h (Suc n) (WhileStmt guard doB) scope ctx K =
     whileLoop b (\<lambda>sc. evalExpr b h n guard sc ctx) (\<lambda>sc. executeBlock b h n doB sc ctx) n 0 scope K"
  unfolding executeBlock_def by simp

lemma executeBlock_simps [simp]:
  "executeBlock b h n [] scope ctx K = ok (None, scope) K"
  "executeBlock b h n (s # rest) scope ctx K =
     andThen (executeStmt b h n s scope ctx K) (\<lambda>(result, scope1) K1.
       case result of
         Some v \<Rightarrow> ok (Some v, scope1) K1
       | None \<Rightarrow> executeBlock b h n rest scope1 ctx K1)"
  unfolding executeBlock_def by simp_all

lemma invoke_Suc:
  "invoke b h (Suc n) cl args K =
    (let ctx = cl_ctx cl;
         scope = bindParams (cl_params cl) args (seedScope ctx);
         K1 = (if hasOnCall ctx then emit (OnCall (cl_name cl) args) K else K)
     in case fd_config (cl_def cl) of
          None \<Rightarrow> raise (HostError ''TypeError'') K1
        | Some c \<Rightarrow>
           (let K2 = (if fc_debug c then emit (DebugCalled (cl_name cl) args) K1 else K1)
            in case fc_body c of
                 None \<Rightarrow> raise (HostError ''TypeError'') K2
               | Some body \<Rightarrow>
                  andThen (executeBlock b h n body scope ctx K2) (\<lambda>(result, scope1) K3.
                  andThen (case result of
                             Some v \<Rightarrow> ok v K3
                           | None \<Rightarrow>
                              (case fc_return c of
                                 None \<Rightarrow> ok Undefined K3
                               | Some e \<Rightarrow>
                                  if exprTruthy e then evalExpr b h n e scope1 ctx K3
                                  else ok Undefined K3))
                    (\<lambda>returnValue K4.
                      let K5 = (if fc_debug c then emit (DebugReturned (cl_name cl) returnValue) K4 else K4);
                          K6 = (if hasOnReturn ctx then emit (OnReturn (cl_name cl) returnValue) K5 else K5)
                      in ok returnValue K6))))"
  unfolding executeBlock_def by simp

declare evalExpr.simps(2) [simp del]
declare executeStmt.simps(2) [simp del]
declare invoke.simps(2) [simp del]

section \<open>Evaluation does not write the tables\<close>

lemma sameTables_refl [simp]: "sameTables K K"
  by (simp add: sameTables_def)

lemma sameTables_trans: "sameTables K K1 \<Longrightarrow> sameTables K1 K2 \<Longrightarrow> sameTables K K2"
  by (simp add: sameTables_def)

lemma sameTables_emit [simp]: "sameTables K (emit ev K)"
  by (simp add: sameTables_def emit_def)

lemma keeps_basic [simp]:
  "keepsTables None K"
  "keepsTables (ok a K) K"
  "keepsTables (raise e K) K"
  "keepsTables (Some (r, K)) K"
  "keepsTables (callHost ev fn args K) K"
  "keepsTables (allocate c K) K"
  by (simp_all add: keepsTables_def ok_def raise_def callHost_def allocate_def sameTables_def
      emit_def split: prod.split)

lemma sameTables_if_emit: "sameTables K K' \<Longrightarrow> sameTables K (if c then emit ev K' else K')"
  by (simp add: sameTables_def emit_def)

lemma keeps_same: "sameTables K K' \<Longrightarrow> keepsTables (Some (r, K')) K"
  by (simp add: keepsTables_def)

lemma keeps_ok_same: "sameTables K K' \<Longrightarrow> keepsTables (ok a K') K"
  by (simp add: keepsTables_def ok_def)

lemma keeps_from: "sameTables K K1 \<Longrightarrow> keepsTables m K1 \<Longrightarrow> keepsTables m K"
  by (auto simp add: keepsTables_def split: option.splits intro: sameTables_trans)

lemma keeps_andThen:
  assumes "keepsTables m K" and "\<And>a K1. sameTables K K1 \<Longrightarrow> keepsTables (f a K1) K1"
  shows "keepsTables (andThen m f) K"
proof (cases m)
  case None
  then show ?thesis by (simp add: andThen_simps)
next
  case (Some p)
  obtain r K1 where p: "p = (r, K1)" by (cases p)
  with Some assms(1) have s: "sameTables K K1" by (simp add: keepsTables_def)
  show ?thesis
  proof (cases r)
    case (Inl e)
    with Some p s show ?thesis by (simp add: andThen_simps keepsTables_def)
  next
    case (Inr a)
    with Some p have "andThen m f = f a K1" by (simp add: andThen_simps)
    with keeps_from [OF s assms(2) [OF s]] show ?thesis by simp
  qed
qed

lemma keeps_evalList:
  assumes "\<And>a K. keepsTables (ev a K) K"
  shows "keepsTables (evalList ev es K) K"
  by (induction es arbitrary: K) (auto intro!: keeps_andThen assms)

lemma keeps_evalProps:
  assumes "\<And>a K. keepsTables (ev a K) K"
  shows "keepsTables (evalProps ev ps acc K) K"
  by (induction ps arbitrary: K acc) (auto intro!: keeps_andThen assms)

lemma keeps_blockLoop:
  assumes "\<And>s sc K. keepsTables (ex s sc K) K"
  shows "keepsTables (blockLoop ex ss sc K) K"
  by (induction ss arbitrary: K sc) (auto intro!: keeps_andThen assms split: option.split)

lemma keeps_forLoop:
  assumes "\<And>sc K. keepsTables (blk sc K) K"
  shows "keepsTables (forLoop blk item items sc K) K"
  by (induction items arbitrary: K sc) (auto intro!: keeps_andThen assms split: option.split)

lemma keeps_forOfArray:
  assumes "\<And>sc K. keepsTables (blk sc K) K"
  shows "keepsTables (forOfArray blk item a k i sc K) K"
  by (induction k arbitrary: K sc i)
    (auto intro!: keeps_andThen assms split: option.split cell.split)

lemma keeps_whileLoop:
  assumes "\<And>sc K. keepsTables (guard sc K) K" and "\<And>sc K. keepsTables (blk sc K) K"
  shows "keepsTables (whileLoop b guard blk k it sc K) K"
  by (induction k arbitrary: K sc it) (auto intro!: keeps_andThen assms split: option.split)

lemma compile_sameTables: "compile f ctx K = (r, K2) \<Longrightarrow> sameTables K K2"
  by (auto simp add: compile_def sameTables_def Let_def split: option.splits)

lemma keeps_all:
  "(\<forall>e sc ctx K. keepsTables (evalExpr b h n e sc ctx K) K)
   \<and> (\<forall>s sc ctx K. keepsTables (executeStmt b h n s sc ctx K) K)
   \<and> (\<forall>cl args K. keepsTables (invoke b h n cl args K) K)"
proof (induction n)
  case 0
  show ?case by simp
next
  case (Suc n)
  then have ev: "\<And>e sc ctx K. keepsTables (evalExpr b h n e sc ctx K) K"
    and ex: "\<And>s sc ctx K. keepsTables (executeStmt b h n s sc ctx K) K"
    and iv: "\<And>cl args K. keepsTables (invoke b h n cl args K) K"
    by blast+
  have bl: "\<And>ss sc ctx K. keepsTables (executeBlock b h n ss sc ctx K) K"
    unfolding executeBlock_def by (rule keeps_blockLoop) (rule ex)
  have args: "\<And>es sc ctx K. keepsTables (evalList (\<lambda>a. evalExpr b h n a sc ctx) es K) K"
    by (rule keeps_evalList) (rule ev)
  have props: "\<And>ps acc sc ctx K. keepsTables (evalProps (\<lambda>a. evalExpr b h n a sc ctx) ps acc K) K"
    by (rule keeps_evalProps) (rule ev)
  have lazy: "\<And>f ctx args K. keepsTables (case compile f ctx K of
                 (Inl e, K2) \<Rightarrow> raise e K2
               | (Inr fn, K2) \<Rightarrow> invoke b h n fn args K2) K"
  proof -
    fix f ctx args K
    obtain r K2 where c: "compile f ctx K = (r, K2)" by (cases "compile f ctx K")
    from compile_sameTables [OF c] have s: "sameTables K K2" .
    show "keepsTables (case compile f ctx K of
                 (Inl e, K2) \<Rightarrow> raise e K2
               | (Inr fn, K2) \<Rightarrow> invoke b h n fn args K2) K"
      unfolding c by (cases r) (auto intro: keeps_from [OF s] iv)
  qed
  have E: "\<And>e sc ctx K. keepsTables (evalExpr b h (Suc n) e sc ctx K) K"
  proof -
    fix e sc ctx K
    show "keepsTables (evalExpr b h (Suc n) e sc ctx K) K"
      by (cases e)
        (auto intro!: keeps_andThen ev args props iv lazy split: option.split jsval.split
           simp del: evalList.simps evalProps.simps)
  qed
  have S: "\<And>s sc ctx K. keepsTables (executeStmt b h (Suc n) s sc ctx K) K"
  proof -
    fix s sc ctx K
    show "keepsTables (executeStmt b h (Suc n) s sc ctx K) K"
      by (cases s)
        (auto intro!: keeps_andThen ev bl keeps_forLoop keeps_forOfArray keeps_whileLoop
           split: option.split jsval.split
           simp del: executeBlock_simps forLoop.simps forOfArray.simps whileLoop.simps)
  qed
  have I: "\<And>cl args K. keepsTables (invoke b h (Suc n) cl args K) K"
  proof -
    fix cl :: closure and args :: "jsval list" and K :: compiler
    define K1 where "K1 = (if hasOnCall (cl_ctx cl) then emit (OnCall (cl_name cl) args) K else K)"
    have s1: "sameTables K K1" by (simp add: K1_def sameTables_if_emit)
    show "keepsTables (invoke b h (Suc n) cl args K) K"
    proof (cases "fd_config (cl_def cl)")
      case None
      then have "invoke b h (Suc n) cl args K = raise (HostError ''TypeError'') K1"
        by (simp add: invoke_Suc K1_def)
      with s1 show ?thesis by (simp add: keeps_same raise_def)
    next
      case (Some c)
      define K2 where "K2 = (if fc_debug c then emit (DebugCalled (cl_name cl) args) K1 else K1)"
      have s2: "sameTables K K2" using s1 by (simp add: K2_def sameTables_if_emit)
      show ?thesis
      proof (cases "fc_body c")
        case None
        with Some have "invoke b h (Suc n) cl args K = raise (HostError ''TypeError'') K2"
          by (simp add: invoke_Suc K1_def K2_def)
        with s2 show ?thesis by (simp add: keeps_same raise_def)
      next
        case body: (Some body)
        have "keepsTables (invoke b h (Suc n) cl args K) K2"
          using Some body unfolding invoke_Suc Let_def K2_def K1_def
          by (auto intro!: keeps_andThen ev bl keeps_ok_same sameTables_if_emit
              split: option.split simp del: executeBlock_simps)
        with s2 show ?thesis by (rule keeps_from)
      qed
    qed
  qed
  from E S I show ?case by blast
qed

lemma evalExpr_tables: "evalExpr b h n e sc ctx K = Some (r, K') \<Longrightarrow> sameTables K K'"
  using keeps_all [of b h n] by (auto simp add: keepsTables_def split: option.splits)

lemma evalList_tables:
  "evalList (\<lambda>a. evalExpr b h n a sc ctx) es K = Some (r, K') \<Longrightarrow> sameTables K K'"
  using keeps_evalList [of "\<lambda>a. evalExpr b h n a sc ctx" es K] keeps_all [of b h n]
  by (auto simp add: keepsTables_def split: option.splits)

lemma invoke_tables: "invoke b h n cl args K = Some (r, K') \<Longrightarrow> sameTables K K'"
  using keeps_all [of b h n] by (auto simp add: keepsTables_def split: option.splits)

section \<open>Logical operators\<close>

text \<open>
  C1, as the specification states it: the right operand of \<open>&&\<close> and \<open>||\<close> is not
  evaluated when the left operand decides the result.  The code does not do that:
  \<open>evalExpr\<close> evaluates both operands of every binary expression before it calls
  \<open>evalBinaryOp\<close>.  In \<open>false && log("reached")\<close> the builtin \<open>log\<close> is called, and the
  result is \<open>false\<close>.
\<close>

theorem logical_and_calls_right_operand:
  "observed (evalExpr SrcTs exampleHost (Suc (Suc (Suc (Suc 0))))
      (BinaryExpr ''&&'' (BareBool False) (CallExpr ''log'' [LiteralExpr (Str ''reached'')]))
      Map.empty None (newCompiler exampleHost))
   = Some (Inr (Bool False), [BuiltinCall ''log'' [Str ''reached'']])"
  by (simp add: observed_def andThen_simps ok_def callHost_def emit_def ctxBuiltin_def
      newCompiler_fields createBuiltins_def plainObject_def evalBinaryOp_def)

text \<open>
  C1, amended: for \<open>&&\<close> and \<open>||\<close> the left operand is evaluated, then the right one, in
  the state the left one left; what the right operand raises is raised, what it does to
  the state stays done, and only the value is chosen by the truthiness of the left value:
  for \<open>&&\<close> the left value when it is falsy and the right value otherwise, for \<open>||\<close> the
  left value when it is truthy and the right value otherwise.
\<close>

theorem logical_operators_evaluate_both_operands:
  assumes "op = ''&&'' \<or> op = ''||''"
    and "evalExpr b h n l scope ctx K = Some (Inr lv, K1)"
  shows "evalExpr b h (Suc n) (BinaryExpr op l r) scope ctx K =
    (case evalExpr b h n r scope ctx K1 of
       None \<Rightarrow> None
     | Some (Inl e, K2) \<Rightarrow> Some (Inl e, K2)
     | Some (Inr rv, K2) \<Rightarrow>
         Some (Inr (if op = ''&&'' then (if truthy lv then rv else lv)
                    else (if truthy lv then lv else rv)), K2))"
  using assms
  by (auto simp add: andThen_def evalBinaryOp_def split: option.splits sum.splits prod.splits)

theorem logical_operators_evaluate_both_operands_witness:
  "(''||'' = ''&&'' \<or> ''||'' = ''||'')
   \<and> evalExpr SrcTs exampleHost (Suc 0) (BareBool True) Map.empty None (newCompiler exampleHost)
       = Some (Inr (Bool True), newCompiler exampleHost)
   \<and> evalExpr SrcTs exampleHost (Suc (Suc 0)) (BinaryExpr ''||'' (BareBool True) (RefExpr ''missing''))
       Map.empty None (newCompiler exampleHost)
       = Some (Inl (UndefinedVariable ''missing''), newCompiler exampleHost)"
proof -
  have l: "evalExpr SrcTs exampleHost (Suc 0) (BareBool True) Map.empty None (newCompiler exampleHost)
       = Some (Inr (Bool True), newCompiler exampleHost)"
    by (simp add: ok_def)
  have r: "evalExpr SrcTs exampleHost (Suc 0) (RefExpr ''missing'') Map.empty None (newCompiler exampleHost)
       = Some (Inl (UndefinedVariable ''missing''), newCompiler exampleHost)"
    by (simp add: raise_def ctxBuiltin_def newCompiler_fields createBuiltins_def plainObject_def
        objectPrototype_def)
  have "''||'' = ''&&'' \<or> ''||'' = ''||''" by simp
  from logical_operators_evaluate_both_operands [OF this l, of "RefExpr ''missing''"] l r
  show ?thesis by simp
qed

section \<open>Method calls\<close>

text \<open>
  C3, as the specification states it: a method call on a receiver that evaluates to
  null or undefined raises \<open>NullReceiver\<close>, for every method name.  The code tests the
  whitelist first: \<open>null.constructor()\<close> raises \<open>MethodNotAllowed\<close>.
\<close>

theorem null_receiver_outside_whitelist:
  "evalExpr SrcTs exampleHost (Suc (Suc 0)) (MethodExpr ''constructor'' (LiteralExpr Null) [])
       Map.empty None (newCompiler exampleHost)
     = Some (Inl (MethodNotAllowed ''constructor''), newCompiler exampleHost)"
  by (simp add: andThen_simps raise_def ok_def newCompiler_def)

text \<open>
  C3, amended: a method call whose receiver evaluates to null or undefined and whose
  method name is in the whitelist raises \<open>NullReceiver\<close>; the arguments are not evaluated.
\<close>

theorem null_receiver_raises:
  assumes "evalExpr b h n obj scope ctx K = Some (Inr v, K1)"
      and "v = Null \<or> v = Undefined"
      and "m \<in> allowedMethods K"
  shows "evalExpr b h (Suc n) (MethodExpr m obj args) scope ctx K = Some (Inl (NullReceiver m), K1)"
  using assms evalExpr_tables [OF assms(1)]
  by (auto simp add: andThen_simps raise_def sameTables_def)

theorem null_receiver_raises_witness:
  "evalExpr SrcTs exampleHost (Suc 0) (LiteralExpr Null) Map.empty None (newCompiler exampleHost)
     = Some (Inr Null, newCompiler exampleHost)
   \<and> (Null = Null \<or> Null = Undefined)
   \<and> ''push'' \<in> allowedMethods (newCompiler exampleHost)
   \<and> evalExpr SrcTs exampleHost (Suc (Suc 0)) (MethodExpr ''push'' (LiteralExpr Null) [BareNum (Fin 1)])
       Map.empty None (newCompiler exampleHost)
     = Some (Inl (NullReceiver ''push''), newCompiler exampleHost)"
proof -
  have o: "evalExpr SrcTs exampleHost (Suc 0) (LiteralExpr Null) Map.empty None (newCompiler exampleHost)
     = Some (Inr Null, newCompiler exampleHost)"
    by (simp add: ok_def)
  have v: "Null = Null \<or> Null = Undefined" by simp
  have m: "''push'' \<in> allowedMethods (newCompiler exampleHost)"
    by (simp add: newCompiler_def)
  from null_receiver_raises [OF o v m, of "[BareNum (Fin 1)]"] o v m show ?thesis by simp
qed

text \<open>
  C4: a method call whose method name is not in the whitelist raises \<open>MethodNotAllowed\<close>,
  whatever value the receiver has evaluated to (null and undefined included) and whatever
  the arguments are.
\<close>

theorem method_outside_whitelist_rejected:
  assumes "evalExpr b h n obj scope ctx K = Some (Inr v, K1)"
      and "m \<notin> allowedMethods K"
  shows "evalExpr b h (Suc n) (MethodExpr m obj args) scope ctx K = Some (Inl (MethodNotAllowed m), K1)"
  using assms evalExpr_tables [OF assms(1)]
  by (simp add: andThen_simps raise_def sameTables_def)

theorem method_outside_whitelist_rejected_witness:
  "evalExpr SrcTs exampleHost (Suc (Suc 0)) (ArrayExpr [BareNum (Fin 1)]) Map.empty None (newCompiler exampleHost)
     = Some (Inr (ObjRef 0), (newCompiler exampleHost)\<lparr>heap := [ArrayCell [Num (Fin 1)]]\<rparr>)
   \<and> ''splice'' \<notin> allowedMethods (newCompiler exampleHost)
   \<and> evalExpr SrcTs exampleHost (Suc (Suc (Suc 0))) (MethodExpr ''splice'' (ArrayExpr [BareNum (Fin 1)]) [])
       Map.empty None (newCompiler exampleHost)
     = Some (Inl (MethodNotAllowed ''splice''), (newCompiler exampleHost)\<lparr>heap := [ArrayCell [Num (Fin 1)]]\<rparr>)"
proof -
  have o: "evalExpr SrcTs exampleHost (Suc (Suc 0)) (ArrayExpr [BareNum (Fin 1)]) Map.empty None (newCompiler exampleHost)
     = Some (Inr (ObjRef 0), (newCompiler exampleHost)\<lparr>heap := [ArrayCell [Num (Fin 1)]]\<rparr>)"
    by (simp add: ok_def andThen_simps allocate_def alloc_def newCompiler_def)
  have m: "''splice'' \<notin> allowedMethods (newCompiler exampleHost)"
    by (simp add: newCompiler_def)
  from method_outside_whitelist_rejected [OF o m, of "[]"] o m show ?thesis by simp
qed

section \<open>Division\<close>

text \<open>
  C5: a binary \<open>/\<close> whose right operand evaluates to the number zero yields the number
  \<open>0\<close>, whatever value the left operand has evaluated to: no error and no infinity.
\<close>

theorem division_by_zero_yields_zero:
  assumes "evalExpr b h n l scope ctx K = Some (Inr lv, K1)"
      and "evalExpr b h n r scope ctx K1 = Some (Inr (Num (Fin 0)), K2)"
  shows "evalExpr b h (Suc n) (BinaryExpr ''/'' l r) scope ctx K = Some (Inr (Num (Fin 0)), K2)"
  using assms by (simp add: andThen_simps evalBinaryOp_def)

theorem division_by_zero_yields_zero_witness:
  "evalExpr SrcTs exampleHost (Suc 0) (BareNum (Fin 7)) Map.empty None (newCompiler exampleHost)
     = Some (Inr (Num (Fin 7)), newCompiler exampleHost)
   \<and> evalExpr SrcTs exampleHost (Suc 0) (LiteralExpr (Num (Fin 0))) Map.empty None (newCompiler exampleHost)
     = Some (Inr (Num (Fin 0)), newCompiler exampleHost)
   \<and> evalExpr SrcTs exampleHost (Suc (Suc 0)) (BinaryExpr ''/'' (BareNum (Fin 7)) (LiteralExpr (Num (Fin 0))))
       Map.empty None (newCompiler exampleHost)
     = Some (Inr (Num (Fin 0)), newCompiler exampleHost)"
proof -
  have l: "evalExpr SrcTs exampleHost (Suc 0) (BareNum (Fin 7)) Map.empty None (newCompiler exampleHost)
     = Some (Inr (Num (Fin 7)), newCompiler exampleHost)"
    by (simp add: ok_def)
  have r: "evalExpr SrcTs exampleHost (Suc 0) (LiteralExpr (Num (Fin 0))) Map.empty None (newCompiler exampleHost)
     = Some (Inr (Num (Fin 0)), newCompiler exampleHost)"
    by (simp add: ok_def)
  from division_by_zero_yields_zero [OF l r] l r show ?thesis by simp
qed

section \<open>Shorthand expressions\<close>

text \<open>
  C9: in every scope, context and compiler state, a bare number evaluates as the literal
  node of that number does, a bare boolean as the literal node of that boolean, and a
  bare string as the reference node of that name: the same value, or the same
  \<open>UndefinedVariable\<close> error.
\<close>

theorem shorthand_same_as_node:
  "evalExpr b h n (BareNum x) scope ctx K = evalExpr b h n (LiteralExpr (Num x)) scope ctx K
   \<and> evalExpr b h n (BareBool v) scope ctx K = evalExpr b h n (LiteralExpr (Bool v)) scope ctx K
   \<and> evalExpr b h n (BareStr s) scope ctx K = evalExpr b h n (RefExpr s) scope ctx K"
  by (cases n) simp_all

theorem shorthand_same_as_node_witness:
  "evalExpr SrcTs exampleHost (Suc 0) (BareStr ''missing'') Map.empty None (newCompiler exampleHost)
     = Some (Inl (UndefinedVariable ''missing''), newCompiler exampleHost)
   \<and> evalExpr SrcTs exampleHost (Suc 0) (BareNum (Fin 3)) Map.empty None (newCompiler exampleHost)
     = Some (Inr (Num (Fin 3)), newCompiler exampleHost)"
proof -
  have r: "evalExpr SrcTs exampleHost (Suc 0) (RefExpr ''missing'') Map.empty None (newCompiler exampleHost)
       = Some (Inl (UndefinedVariable ''missing''), newCompiler exampleHost)"
    by (simp add: raise_def ctxBuiltin_def newCompiler_fields createBuiltins_def plainObject_def
        objectPrototype_def)
  have l: "evalExpr SrcTs exampleHost (Suc 0) (LiteralExpr (Num (Fin 3))) Map.empty None (newCompiler exampleHost)
       = Some (Inr (Num (Fin 3)), newCompiler exampleHost)"
    by (simp add: ok_def)
  from shorthand_same_as_node [of SrcTs exampleHost "Suc 0" "Fin 3" Map.empty None
      "newCompiler exampleHost" True "''missing''"] r l
  show ?thesis by simp
qed

section \<open>The iteration cap of the while loop\<close>

lemma whileLoop_src_diverges:
  assumes g: "\<And>sc K. guard sc K = None \<or> (\<exists>gv K1. guard sc K = Some (Inr gv, K1) \<and> truthy gv)"
      and blk: "\<And>sc K. blk sc K = None \<or> (\<exists>sc1 K1. blk sc K = Some (Inr (None, sc1), K1))"
  shows "whileLoop SrcTs guard blk k it sc K = None"
proof (induction k arbitrary: it sc K)
  case 0
  show ?case by simp
next
  case (Suc k)
  from g [of sc K] show ?case
  proof
    assume "guard sc K = None"
    then show ?thesis by (simp add: andThen_simps)
  next
    assume "\<exists>gv K1. guard sc K = Some (Inr gv, K1) \<and> truthy gv"
    then obtain gv K1 where gv: "guard sc K = Some (Inr gv, K1)" "truthy gv" by blast
    from blk [of sc K1] show ?thesis
    proof
      assume "blk sc K1 = None"
      with gv show ?thesis by (simp add: andThen_simps)
    next
      assume "\<exists>sc1 K2. blk sc K1 = Some (Inr (None, sc1), K2)"
      then obtain sc1 K2 where "blk sc K1 = Some (Inr (None, sc1), K2)" by blast
      with gv Suc.IH [of "Suc it" sc1 K2] show ?thesis by (simp add: andThen_simps)
    qed
  qed
qed

text \<open>
  In the build \<open>dist/compiler.js\<close> a loop whose guard is truthy in every state and whose
  body completes without \<open>return\<close> in every state raises \<open>LoopLimitExceeded\<close>, as
  soon as the fuel allows for more than \<open>maxIterations\<close> tests of the guard.
\<close>

lemma whileLoop_dist_cap:
  assumes g: "\<And>sc K. \<exists>gv K1. guard sc K = Some (Inr gv, K1) \<and> truthy gv"
      and blk: "\<And>sc K. \<exists>sc1 K1. blk sc K = Some (Inr (None, sc1), K1)"
  shows "it + j = maxIterations \<Longrightarrow> j < k \<Longrightarrow>
    \<exists>K'. whileLoop DistJs guard blk k it sc K = Some (Inl LoopLimitExceeded, K')"
proof (induction j arbitrary: it k sc K)
  case 0
  then obtain k' where k: "k = Suc k'" by (cases k) auto
  from g [of sc K] obtain gv K1 where gv: "guard sc K = Some (Inr gv, K1)" "truthy gv" by blast
  with 0 k show ?case by (simp add: andThen_simps raise_def)
next
  case (Suc j)
  then obtain k' where k: "k = Suc k'" "j < k'" by (cases k) auto
  from g [of sc K] obtain gv K1 where gv: "guard sc K = Some (Inr gv, K1)" "truthy gv" by blast
  from blk [of sc K1] obtain sc1 K2 where b: "blk sc K1 = Some (Inr (None, sc1), K2)" by blast
  have "Suc it + j = maxIterations" using Suc.prems by simp
  from Suc.IH [OF this k(2), of sc1 K2] obtain K' where
    "whileLoop DistJs guard blk k' (Suc it) sc1 K2 = Some (Inl LoopLimitExceeded, K')" by blast
  moreover have "\<not> Suc it > maxIterations" using Suc.prems by simp
  ultimately show ?case using k gv b by (simp add: andThen_simps)
qed

lemma dist_build_enforces_cap:
  assumes g: "\<And>sc K. \<exists>gv K1. evalExpr DistJs h n guard sc ctx K = Some (Inr gv, K1) \<and> truthy gv"
      and blk: "\<And>sc K. \<exists>sc1 K1. executeBlock DistJs h n doB sc ctx K = Some (Inr (None, sc1), K1)"
      and n: "maxIterations < n"
  shows "\<exists>K'. executeStmt DistJs h (Suc n) (WhileStmt guard doB) scope ctx K
           = Some (Inl LoopLimitExceeded, K')"
  using whileLoop_dist_cap [of "\<lambda>sc. evalExpr DistJs h n guard sc ctx"
      "\<lambda>sc. executeBlock DistJs h n doB sc ctx" 0 maxIterations n scope K, OF g blk] n
  by simp

lemma dist_build_while_true:
  assumes n: "maxIterations < n"
  shows "\<exists>K'. executeStmt DistJs h (Suc n) (WhileStmt (BareBool True) []) scope ctx K
           = Some (Inl LoopLimitExceeded, K')"
proof (rule dist_build_enforces_cap [OF _ _ n])
  from n obtain m where m: "n = Suc m" by (cases n) auto
  show "\<And>sc K. \<exists>gv K1. evalExpr DistJs h n (BareBool True) sc ctx K = Some (Inr gv, K1) \<and> truthy gv"
    using m by (simp add: ok_def)
  show "\<And>sc K. \<exists>sc1 K1. executeBlock DistJs h n [] sc ctx K = Some (Inr (None, sc1), K1)"
    by (simp add: ok_def)
qed

text \<open>
  C2: a while loop whose guard never becomes falsy ends with \<open>LoopLimitExceeded\<close> once
  the cap of 100000 iterations is reached.  The README promises that cap and
  \<open>dist/compiler.js\<close> enforces it (\<open>dist_build_enforces_cap\<close>), but
  \<open>src/compiler.ts\<close> has no counter: there the statement \<open>{while: true, do: []}\<close>
  does not return, whatever the fuel.
\<close>

theorem while_true_never_returns_in_source:
  "executeStmt SrcTs h n (WhileStmt (BareBool True) []) scope ctx K = None"
proof (cases n)
  case 0
  then show ?thesis by simp
next
  case (Suc m)
  have g: "\<And>sc K. evalExpr SrcTs h m (BareBool True) sc ctx K = None
      \<or> (\<exists>gv K1. evalExpr SrcTs h m (BareBool True) sc ctx K = Some (Inr gv, K1) \<and> truthy gv)"
    by (cases m) (simp_all add: ok_def)
  have b: "\<And>sc K. executeBlock SrcTs h m [] sc ctx K = None
      \<or> (\<exists>sc1 K1. executeBlock SrcTs h m [] sc ctx K = Some (Inr (None, sc1), K1))"
    by (simp add: ok_def)
  from whileLoop_src_diverges [of "\<lambda>sc. evalExpr SrcTs h m (BareBool True) sc ctx"
      "\<lambda>sc. executeBlock SrcTs h m [] sc ctx", OF g b] Suc
  show ?thesis by simp
qed

theorem while_true_never_returns_in_source_witness:
  "executeStmt SrcTs exampleHost (Suc maxIterations + 2) (WhileStmt (BareBool True) [])
     Map.empty None (newCompiler exampleHost) = None"
  by (rule while_true_never_returns_in_source)

section \<open>Load-time validation\<close>

lemma validate_tag:
  "fd_type d \<noteq> ''FUNCTION'' \<Longrightarrow>
   validateFunction name d = Inl (InvalidDefinition name TypeMustBeFunction)"
  by (simp add: validateFunction_def)

lemma validate_ok_tag: "validateFunction name d = Inr u \<Longrightarrow> fd_type d = ''FUNCTION''"
  by (simp add: validateFunction_def split: if_splits)

lemma validate_error_shape:
  "validateFunction name d = Inl e \<Longrightarrow> \<exists>why. e = InvalidDefinition name why"
  by (auto simp add: validateFunction_def split: if_splits option.splits)

lemma loadEntries_rejects:
  "(name, d) \<in> set es \<Longrightarrow> fd_type d \<noteq> ''FUNCTION'' \<Longrightarrow>
   \<exists>name' why. fst (loadEntries es K) = Inl (InvalidDefinition name' why)"
proof (induction es arbitrary: K)
  case Nil
  then show ?case by simp
next
  case (Cons a es)
  obtain n' d' where a: "a = (n', d')" by (cases a)
  show ?case
  proof (cases "validateFunction n' d'")
    case (Inl e)
    then show ?thesis using a validate_error_shape [OF Inl] by auto
  next
    case (Inr u)
    then have "fd_type d' = ''FUNCTION''" by (rule validate_ok_tag)
    with Cons.prems a have "(name, d) \<in> set es" by auto
    from Cons.IH [OF this Cons.prems(2)] a Inr show ?thesis by simp
  qed
qed

lemma loadEntries_tags:
  "\<forall>n' d'. functionDefs K n' = Some d' \<longrightarrow> fd_type d' = ''FUNCTION'' \<Longrightarrow>
   \<forall>n' d'. functionDefs (snd (loadEntries es K)) n' = Some d' \<longrightarrow> fd_type d' = ''FUNCTION''"
proof (induction es arbitrary: K)
  case Nil
  then show ?case by simp
next
  case (Cons a es)
  obtain n' d' where a: "a = (n', d')" by (cases a)
  show ?case
  proof (cases "validateFunction n' d'")
    case (Inl e)
    then show ?thesis using a Cons.prems by simp
  next
    case (Inr u)
    then have t: "fd_type d' = ''FUNCTION''" by (rule validate_ok_tag)
    let ?K = "K\<lparr>functionDefs := (functionDefs K)(n' \<mapsto> d')\<rparr>"
    have "\<forall>m e. functionDefs ?K m = Some e \<longrightarrow> fd_type e = ''FUNCTION''"
      using Cons.prems t by auto
    from Cons.IH [OF this] a Inr show ?thesis by simp
  qed
qed

text \<open>
  C10: validation accepts the tag \<open>FUNCTION\<close> only, and the type model declares the tag
  \<open>CALLBACK\<close>.  So a definition that carries the declared tag fails validation with
  \<open>type must be "FUNCTION"\<close>; a \<open>load\<close> of a configuration that contains one raises a
  validation error; and a registry that holds definitions tagged \<open>FUNCTION\<close> only (the
  empty one of the constructor, to begin with) still does after any \<open>load\<close>, whether it
  succeeded or not.  Nothing else writes the registry: not \<open>compile\<close>, not
  \<open>addBuiltin\<close>, not the call of a closure.
\<close>

theorem callback_tag_rejected_by_load:
  "(fd_type d = FunctionDef_type \<longrightarrow>
      validateFunction name d = Inl (InvalidDefinition name TypeMustBeFunction))
   \<and> (fd_type d = FunctionDef_type \<and> (name, d) \<in> set es \<longrightarrow>
      (\<exists>name' why. fst (load (Some \<lparr>cfg_functions = Some es\<rparr>) K)
          = Inl (InvalidDefinition name' why)))
   \<and> ((\<forall>n' d'. functionDefs K n' = Some d' \<longrightarrow> fd_type d' = ''FUNCTION'') \<longrightarrow>
      (\<forall>n' d'. functionDefs (snd (load config K)) n' = Some d' \<longrightarrow> fd_type d' = ''FUNCTION''))
   \<and> functionDefs (snd (compile f ctx K)) = functionDefs K
   \<and> functionDefs (addBuiltin f fn K) = functionDefs K
   \<and> (invoke b h n cl args K = Some (r, K') \<longrightarrow> functionDefs K' = functionDefs K)"
proof (intro conjI impI)
  assume "fd_type d = FunctionDef_type"
  then show "validateFunction name d = Inl (InvalidDefinition name TypeMustBeFunction)"
    by (simp add: validate_tag FunctionDef_type_def)
next
  assume "fd_type d = FunctionDef_type \<and> (name, d) \<in> set es"
  then have "(name, d) \<in> set es" "fd_type d \<noteq> ''FUNCTION''"
    by (simp_all add: FunctionDef_type_def)
  from loadEntries_rejects [OF this]
  show "\<exists>name' why. fst (load (Some \<lparr>cfg_functions = Some es\<rparr>) K)
          = Inl (InvalidDefinition name' why)"
    by (simp add: load_def)
next
  assume inv: "\<forall>n' d'. functionDefs K n' = Some d' \<longrightarrow> fd_type d' = ''FUNCTION''"
  show "\<forall>n' d'. functionDefs (snd (load config K)) n' = Some d' \<longrightarrow> fd_type d' = ''FUNCTION''"
    using inv loadEntries_tags [OF inv]
    by (simp add: load_def split: option.splits)
next
  show "functionDefs (snd (compile f ctx K)) = functionDefs K"
    by (simp add: compile_def Let_def split: option.splits)
next
  show "functionDefs (addBuiltin f fn K) = functionDefs K"
    by (simp add: addBuiltin_def)
next
  assume "invoke b h n cl args K = Some (r, K')"
  from invoke_tables [OF this] show "functionDefs K' = functionDefs K"
    by (simp add: sameTables_def)
qed

theorem callback_tag_rejected_by_load_witness:
  "fd_type callbackDef = FunctionDef_type
   \<and> validateFunction ''second'' callbackDef = Inl (InvalidDefinition ''second'' TypeMustBeFunction)
   \<and> fst (load mixedConfig (newCompiler exampleHost))
       = Inl (InvalidDefinition ''second'' TypeMustBeFunction)
   \<and> dom (functionDefs (snd (load mixedConfig (newCompiler exampleHost)))) = {''first''}
   \<and> functionDefs (snd (load mixedConfig (newCompiler exampleHost))) ''first'' = Some whoDef
   \<and> fd_type whoDef = ''FUNCTION''"
proof -
  have t: "fd_type callbackDef = FunctionDef_type"
    by (simp add: callbackDef_def FunctionDef_type_def)
  from callback_tag_rejected_by_load [of callbackDef "''second''"] t
  have v: "validateFunction ''second'' callbackDef = Inl (InvalidDefinition ''second'' TypeMustBeFunction)"
    by blast
  have w: "validateFunction ''first'' whoDef = Inr ()"
    by (simp add: validateFunction_def whoDef_def)
  have f: "fd_type whoDef = ''FUNCTION''"
    by (simp add: whoDef_def)
  show ?thesis using t v w f
    by (simp add: load_def mixedConfig_def newCompiler_def)
qed

section \<open>Resolution of function calls\<close>

text \<open>
  What the code does with a call, once the arguments have been evaluated: the name is
  looked up in the builtins of the context, then in the builtins of the registry, then in
  the functions of the context, then in the cache of compiled closures, then in the
  loaded definitions, which are compiled on the spot with the context of the caller and
  stored in the cache.  The first table that has the name answers, whatever the later
  ones hold; a name that none of them has raises \<open>UnknownFunction\<close>.  The first three
  tables are plain objects read with \<open>in\<close>, so they have the names that every object
  inherits besides their own.
\<close>

lemma call_resolution:
  assumes "evalList (\<lambda>a. evalExpr b h n a scope ctx) arguments K = Some (Inr args, K1)"
  shows
   "(\<forall>fn. ctxBuiltin h ctx f = Some fn \<longrightarrow>
       evalExpr b h (Suc n) (CallExpr f arguments) scope ctx K
         = callHost (CtxBuiltinCall f args) fn args K1)
  \<and> (\<forall>fn. ctxBuiltin h ctx f = None \<and> plainObject h (builtins K) f = Some fn \<longrightarrow>
       evalExpr b h (Suc n) (CallExpr f arguments) scope ctx K
         = callHost (BuiltinCall f args) fn args K1)
  \<and> (\<forall>fn. ctxBuiltin h ctx f = None \<and> plainObject h (builtins K) f = None
         \<and> ctxFunction h ctx f = Some fn \<longrightarrow>
       evalExpr b h (Suc n) (CallExpr f arguments) scope ctx K
         = callHost (CtxFunctionCall f args) fn args K1)
  \<and> (\<forall>cl. ctxBuiltin h ctx f = None \<and> plainObject h (builtins K) f = None
         \<and> ctxFunction h ctx f = None \<and> compiledFunctions K1 f = Some cl \<longrightarrow>
       evalExpr b h (Suc n) (CallExpr f arguments) scope ctx K = invoke b h n cl args K1)
  \<and> (\<forall>d c. ctxBuiltin h ctx f = None \<and> plainObject h (builtins K) f = None
         \<and> ctxFunction h ctx f = None \<and> compiledFunctions K1 f = None
         \<and> functionDefs K f = Some d \<and> fd_config d = Some c \<longrightarrow>
       evalExpr b h (Suc n) (CallExpr f arguments) scope ctx K
         = invoke b h n \<lparr>cl_name = f, cl_def = d, cl_params = normalizeParams (fc_params c), cl_ctx = ctx\<rparr> args
             (K1\<lparr>compiledFunctions := (compiledFunctions K1)
                (f \<mapsto> \<lparr>cl_name = f, cl_def = d, cl_params = normalizeParams (fc_params c), cl_ctx = ctx\<rparr>)\<rparr>))
  \<and> (ctxBuiltin h ctx f = None \<and> plainObject h (builtins K) f = None
         \<and> ctxFunction h ctx f = None \<and> compiledFunctions K1 f = None \<and> functionDefs K f = None \<longrightarrow>
       evalExpr b h (Suc n) (CallExpr f arguments) scope ctx K = Some (Inl (UnknownFunction f), K1))"
  using assms evalList_tables [OF assms]
  by (simp add: andThen_simps compile_def raise_def Let_def sameTables_def)

lemma context_views:
  "ctxBuiltin exampleHost (Some allTiers) ''f'' = Some (constFn ''context builtin'')"
  "ctxBuiltin exampleHost (Some noBuiltins) ''f'' = None"
  "ctxFunction exampleHost (Some noBuiltins) ''f'' = Some (constFn ''context function'')"
  "ctxBuiltin exampleHost (Some variablesOnly) ''f'' = None"
  "ctxFunction exampleHost (Some variablesOnly) ''f'' = None"
  by (simp_all add: ctxBuiltin_def ctxFunction_def allTiers_def noBuiltins_def variablesOnly_def
      plainObject_def)

lemma defined_views:
  "functionDefs defined ''f'' = Some whoDef"
  "compiledFunctions defined ''f'' = None"
  "plainObject exampleHost (builtins defined) ''f'' = None"
  "effects defined = []"
  "heap defined = []"
  by (simp_all add: defined_def load_def validateFunction_def whoDef_def
      newCompiler_def createBuiltins_def plainObject_def objectPrototype_def)

lemma cached_views:
  "compiledFunctions cached ''f''
     = Some \<lparr>cl_name = ''f'', cl_def = whoDef, cl_params = [],
             cl_ctx = Some (whoContext ''context of the cached closure'')\<rparr>"
  "plainObject exampleHost (builtins cached) ''f'' = None"
  "effects cached = []"
  "heap cached = []"
  by (simp_all add: cached_def compile_def defined_views Let_def normalizeParams_def whoDef_def)

lemma registered_views:
  "plainObject exampleHost (builtins registered) ''f'' = Some (constFn ''registry builtin'')"
  "effects registered = []"
  "heap registered = []"
  by (simp_all add: registered_def addBuiltin_def cached_views plainObject_def)

lemma new_views:
  "functionDefs (newCompiler exampleHost) ''f'' = None"
  "compiledFunctions (newCompiler exampleHost) ''f'' = None"
  "plainObject exampleHost (builtins (newCompiler exampleHost)) ''f'' = None"
  by (simp_all add: newCompiler_def createBuiltins_def plainObject_def objectPrototype_def)

text \<open>
  The same call of \<open>f\<close>, answered by each of the five tables in turn as the earlier
  ones are taken away, and by none.
\<close>

lemma call_resolution_examples:
  "observed (evalExpr SrcTs exampleHost 3 (CallExpr ''f'' []) Map.empty (Some allTiers) registered)
     = Some (Inr (Str ''context builtin''), [CtxBuiltinCall ''f'' []])
   \<and> observed (evalExpr SrcTs exampleHost 3 (CallExpr ''f'' []) Map.empty (Some noBuiltins) registered)
     = Some (Inr (Str ''registry builtin''), [BuiltinCall ''f'' []])
   \<and> observed (evalExpr SrcTs exampleHost 3 (CallExpr ''f'' []) Map.empty (Some noBuiltins) cached)
     = Some (Inr (Str ''context function''), [CtxFunctionCall ''f'' []])
   \<and> observed (evalExpr SrcTs exampleHost 3 (CallExpr ''f'' []) Map.empty (Some variablesOnly) cached)
     = Some (Inr (Str ''context of the cached closure''), [])
   \<and> observed (evalExpr SrcTs exampleHost 3 (CallExpr ''f'' []) Map.empty (Some variablesOnly) defined)
     = Some (Inr (Str ''current context''), [])
   \<and> observed (evalExpr SrcTs exampleHost 3 (CallExpr ''f'' []) Map.empty (Some variablesOnly)
        (newCompiler exampleHost))
     = Some (Inl (UnknownFunction ''f''), [])"
proof -
  have three: "(3::nat) = Suc 2" by simp
  have a: "\<And>ctx K. evalList (\<lambda>a. evalExpr SrcTs exampleHost 2 a Map.empty ctx) [] K = Some (Inr [], K)"
    by (simp add: ok_def)
  note tiers = call_resolution [OF a, of _ "''f''", folded three]
  have t1: "evalExpr SrcTs exampleHost 3 (CallExpr ''f'' []) Map.empty (Some allTiers) registered
      = callHost (CtxBuiltinCall ''f'' []) (constFn ''context builtin'') [] registered"
    using tiers [of "Some allTiers" registered] context_views by blast
  have t2: "evalExpr SrcTs exampleHost 3 (CallExpr ''f'' []) Map.empty (Some noBuiltins) registered
      = callHost (BuiltinCall ''f'' []) (constFn ''registry builtin'') [] registered"
    using tiers [of "Some noBuiltins" registered] context_views registered_views by blast
  have t3: "evalExpr SrcTs exampleHost 3 (CallExpr ''f'' []) Map.empty (Some noBuiltins) cached
      = callHost (CtxFunctionCall ''f'' []) (constFn ''context function'') [] cached"
    using tiers [of "Some noBuiltins" cached] context_views cached_views by blast
  have t4: "evalExpr SrcTs exampleHost 3 (CallExpr ''f'' []) Map.empty (Some variablesOnly) cached
      = invoke SrcTs exampleHost 2
          \<lparr>cl_name = ''f'', cl_def = whoDef, cl_params = [],
            cl_ctx = Some (whoContext ''context of the cached closure'')\<rparr> [] cached"
    using tiers [of "Some variablesOnly" cached] context_views cached_views by blast
  have c: "fd_config whoDef = Some \<lparr> fc_debug = False, fc_params = Some (Names []), fc_body = Some [],
                         fc_return = Some (RefExpr ''who'') \<rparr>"
    by (simp add: whoDef_def)
  have t5: "evalExpr SrcTs exampleHost 3 (CallExpr ''f'' []) Map.empty (Some variablesOnly) defined
      = invoke SrcTs exampleHost 2
          \<lparr>cl_name = ''f'', cl_def = whoDef, cl_params = [], cl_ctx = Some variablesOnly\<rparr> []
          (defined\<lparr>compiledFunctions := (compiledFunctions defined)
             (''f'' \<mapsto> \<lparr>cl_name = ''f'', cl_def = whoDef, cl_params = [], cl_ctx = Some variablesOnly\<rparr>)\<rparr>)"
    using tiers [of "Some variablesOnly" defined] context_views defined_views c
    by (simp add: normalizeParams_def)
  have t6: "evalExpr SrcTs exampleHost 3 (CallExpr ''f'' []) Map.empty (Some variablesOnly)
        (newCompiler exampleHost) = Some (Inl (UnknownFunction ''f''), newCompiler exampleHost)"
    using tiers [of "Some variablesOnly" "newCompiler exampleHost"] context_views new_views by blast
  have two: "(2::nat) = Suc (Suc 0)" by simp
  have i4: "observed (invoke SrcTs exampleHost 2
          \<lparr>cl_name = ''f'', cl_def = whoDef, cl_params = [],
            cl_ctx = Some (whoContext ''context of the cached closure'')\<rparr> [] cached)
      = Some (Inr (Str ''context of the cached closure''), [])"
    unfolding two
    by (simp add: invoke_Suc observed_def andThen_simps ok_def whoDef_def whoContext_def
        seedScope_def hasOnCall_def hasOnReturn_def cached_views)
  have i5: "observed (invoke SrcTs exampleHost 2
          \<lparr>cl_name = ''f'', cl_def = whoDef, cl_params = [], cl_ctx = Some variablesOnly\<rparr> []
          (defined\<lparr>compiledFunctions := (compiledFunctions defined)
             (''f'' \<mapsto> \<lparr>cl_name = ''f'', cl_def = whoDef, cl_params = [], cl_ctx = Some variablesOnly\<rparr>)\<rparr>))
      = Some (Inr (Str ''current context''), [])"
    unfolding two
    by (simp add: invoke_Suc observed_def andThen_simps ok_def whoDef_def variablesOnly_def
        noBuiltins_def allTiers_def seedScope_def hasOnCall_def hasOnReturn_def defined_views)
  show ?thesis
    unfolding t1 t2 t3 t4 t5 t6 i4 i5
    by (simp add: observed_def callHost_def emit_def constFn_def registered_views cached_views
        newCompiler_fields)
qed

text \<open>
  C6: a call is resolved in the builtins of the context, the builtins of the registry,
  the functions of the context, the cache and the loaded definitions, in this order, and
  a name that is in none of the five raises \<open>UnknownFunction\<close>.  The code does resolve
  in this order, but it asks \<open>name in table\<close> of tables that are plain objects, and
  that holds for the names that every object inherits too.  So a call of
  \<open>constructor\<close>, \<open>hasOwnProperty\<close>, \<open>valueOf\<close> and the like, which no table of the
  registry and no context defines, does not raise \<open>UnknownFunction\<close>: the builtin tier
  answers it with the inherited member, a function of the host that the README's
  isolated scope is meant to keep out of reach; and a loaded definition or a compiled
  closure of such a name is never called.
\<close>

theorem inherited_name_called_as_builtin:
  assumes "evalList (\<lambda>a. evalExpr b h n a scope ctx) arguments K = Some (Inr args, K1)"
      and "f \<in> set objectPrototype"
      and "ctxBuiltin h ctx f = None"
      and "builtins K f = None"
  shows "evalExpr b h (Suc n) (CallExpr f arguments) scope ctx K
           = callHost (BuiltinCall f args) (js_inherited h f (\<lambda>k. builtins K k \<noteq> None)) args K1"
  using assms evalList_tables [OF assms(1)]
  by (simp add: andThen_simps plainObject_def sameTables_def)

theorem inherited_name_called_as_builtin_witness:
  "evalList (\<lambda>a. evalExpr SrcTs exampleHost (Suc 0) a Map.empty None) [] (newCompiler exampleHost)
     = Some (Inr [], newCompiler exampleHost)
   \<and> ''constructor'' \<in> set objectPrototype
   \<and> ctxBuiltin exampleHost None ''constructor'' = None
   \<and> builtins (newCompiler exampleHost) ''constructor'' = None
   \<and> compiledFunctions (newCompiler exampleHost) ''constructor'' = None
   \<and> functionDefs (newCompiler exampleHost) ''constructor'' = None
   \<and> evalExpr SrcTs exampleHost (Suc (Suc 0)) (CallExpr ''constructor'' []) Map.empty None
         (newCompiler exampleHost)
       = Some (Inr (ObjRef 0),
           (newCompiler exampleHost)\<lparr>effects := [BuiltinCall ''constructor'' []], heap := [ObjectCell []]\<rparr>)
   \<and> functionDefs shadowed ''hasOwnProperty'' = Some whoDef
   \<and> observed (evalExpr SrcTs exampleHost (Suc (Suc 0))
         (CallExpr ''hasOwnProperty'' [LiteralExpr (Str ''abs'')]) Map.empty
         (Some (whoContext ''the loaded definition'')) shadowed)
       = Some (Inr (Bool True), [BuiltinCall ''hasOwnProperty'' [Str ''abs'']])"
proof -
  have a: "evalList (\<lambda>a. evalExpr SrcTs exampleHost (Suc 0) a Map.empty None) [] (newCompiler exampleHost)
     = Some (Inr [], newCompiler exampleHost)"
    by (simp add: ok_def)
  have p: "''constructor'' \<in> set objectPrototype"
    by (simp add: objectPrototype_def)
  have c: "ctxBuiltin exampleHost None ''constructor'' = None"
    by (simp add: ctxBuiltin_def)
  have r: "builtins (newCompiler exampleHost) ''constructor'' = None"
    by (simp add: newCompiler_def createBuiltins_def)
  have a': "evalList (\<lambda>a. evalExpr SrcTs exampleHost (Suc 0) a Map.empty
               (Some (whoContext ''the loaded definition''))) [LiteralExpr (Str ''abs'')] shadowed
     = Some (Inr [Str ''abs''], shadowed)"
    by (simp add: ok_def andThen_simps)
  have p': "''hasOwnProperty'' \<in> set objectPrototype"
    by (simp add: objectPrototype_def)
  have c': "ctxBuiltin exampleHost (Some (whoContext ''the loaded definition'')) ''hasOwnProperty'' = None"
    by (simp add: ctxBuiltin_def whoContext_def)
  have s: "functionDefs shadowed ''hasOwnProperty'' = Some whoDef"
      "builtins shadowed = createBuiltins exampleHost" "effects shadowed = []"
    by (simp_all add: shadowed_def load_def validateFunction_def whoDef_def newCompiler_def)
  have r': "builtins shadowed ''hasOwnProperty'' = None"
    by (simp add: s createBuiltins_def)
  from inherited_name_called_as_builtin [OF a p c r] inherited_name_called_as_builtin [OF a' p' c' r']
    a p c r s
  show ?thesis
    by (simp add: callHost_def emit_def exampleHost_def objectMember_def arg0_def alloc_def
        observed_def newCompiler_def createBuiltins_def)
qed

section \<open>Closures and their contexts\<close>

text \<open>
  Two runs of one expression, statement or closure from states that differ in the cache
  and the log only end alike, when no call in it reaches the cache: every step reads
  the tables and the heap, which are the same, and a call that is answered by a builtin
  or a function of the context does not look at the cache.
\<close>

lemma list_all_map_id: "list_all (\<lambda>x. x) (map f xs) = (\<forall>x\<in>set xs. f x)"
  by (simp add: list_all_iff)

lemma list_all_props: "list_all snd (map (map_prod (\<lambda>k. k) f) ps) = (\<forall>p\<in>set ps. f (snd p))"
  by (auto simp add: list_all_iff)

lemma sameWorld_refl [simp]: "sameWorld K K"
  by (simp add: sameWorld_def)

lemma sameWorld_emit: "sameWorld K K' \<Longrightarrow> sameWorld (emit ev K) (emit ev' K')"
  by (simp add: sameWorld_def sameTables_def emit_def)

lemma sameWorld_if_emit:
  "sameWorld K K' \<Longrightarrow> sameWorld (if c then emit ev K else K) (if c then emit ev K' else K')"
  by (simp add: sameWorld_emit)

lemma agree_basic:
  "agree None None"
  "sameWorld K K' \<Longrightarrow> agree (ok a K) (ok a K')"
  "sameWorld K K' \<Longrightarrow> agree (raise e K) (raise e K')"
  "sameWorld K K' \<Longrightarrow> agree (Some (r, K)) (Some (r, K'))"
  by (simp_all add: agree_def ok_def raise_def)

lemma agree_callHost:
  "sameWorld K K' \<Longrightarrow> agree (callHost ev fn args K) (callHost ev fn args K')"
  by (simp add: agree_def callHost_def sameWorld_def sameTables_def emit_def split: prod.split)

lemma agree_allocate:
  "sameWorld K K' \<Longrightarrow> agree (allocate c K) (allocate c K')"
  by (simp add: agree_def allocate_def alloc_def ok_def sameWorld_def sameTables_def)

lemma agree_andThen:
  assumes m: "agree m m'" and k: "keepsTables m K"
    and f: "\<And>a K1 K1'. sameTables K K1 \<Longrightarrow> sameWorld K1 K1' \<Longrightarrow> agree (f a K1) (g a K1')"
  shows "agree (andThen m f) (andThen m' g)"
proof (cases m)
  case None
  with m show ?thesis by (simp add: agree_def andThen_simps)
next
  case (Some p)
  obtain r K1 where p: "p = (r, K1)" by (cases p)
  from m Some p obtain K1' where m': "m' = Some (r, K1')" and w: "sameWorld K1 K1'"
    by (auto simp add: agree_def split: option.splits)
  from k Some p have s: "sameTables K K1" by (simp add: keepsTables_def)
  show ?thesis
  proof (cases r)
    case (Inl e)
    with Some p m' w show ?thesis by (simp add: andThen_simps agree_def)
  next
    case (Inr a)
    with Some p m' f [OF s w] show ?thesis by (simp add: andThen_simps)
  qed
qed

lemma agree_evalList:
  assumes ev: "\<And>a K K'. a \<in> set es \<Longrightarrow> builtins K = T \<Longrightarrow> sameWorld K K' \<Longrightarrow> agree (ev a K) (ev a K')"
    and keep: "\<And>a K. keepsTables (ev a K) K"
  shows "builtins K = T \<Longrightarrow> sameWorld K K' \<Longrightarrow> agree (evalList ev es K) (evalList ev es K')"
  using ev
proof (induction es arbitrary: K K')
  case Nil
  then show ?case by (simp add: agree_basic)
next
  case (Cons a es)
  show ?case
    unfolding evalList.simps
  proof (rule agree_andThen [where K = K])
    show "agree (ev a K) (ev a K')" using Cons.prems by simp
    show "keepsTables (ev a K) K" by (rule keep)
  next
    fix v K1 K1'
    assume s: "sameTables K K1" and w: "sameWorld K1 K1'"
    from s Cons.prems(1) have b: "builtins K1 = T" by (simp add: sameTables_def)
    show "agree (andThen (evalList ev es K1) (\<lambda>vs. ok (v # vs)))
                (andThen (evalList ev es K1') (\<lambda>vs. ok (v # vs)))"
    proof (rule agree_andThen [where K = K1])
      show "agree (evalList ev es K1) (evalList ev es K1')"
        using Cons.IH [OF b w] Cons.prems(3) by simp
      show "keepsTables (evalList ev es K1) K1" by (rule keeps_evalList) (rule keep)
    qed (simp add: agree_basic)
  qed
qed

lemma agree_evalProps:
  assumes ev: "\<And>a K K'. a \<in> snd ` set ps \<Longrightarrow> builtins K = T \<Longrightarrow> sameWorld K K' \<Longrightarrow> agree (ev a K) (ev a K')"
    and keep: "\<And>a K. keepsTables (ev a K) K"
  shows "builtins K = T \<Longrightarrow> sameWorld K K' \<Longrightarrow> agree (evalProps ev ps acc K) (evalProps ev ps acc K')"
  using ev
proof (induction ps arbitrary: K K' acc)
  case Nil
  then show ?case by (simp add: agree_basic)
next
  case (Cons p ps)
  obtain k e where p: "p = (k, e)" by (cases p)
  show ?case
    unfolding p evalProps.simps
  proof (rule agree_andThen [where K = K])
    show "agree (ev e K) (ev e K')" using Cons.prems p by simp
    show "keepsTables (ev e K) K" by (rule keep)
  next
    fix v K1 K1'
    assume s: "sameTables K K1" and w: "sameWorld K1 K1'"
    from s Cons.prems(1) have b: "builtins K1 = T" by (simp add: sameTables_def)
    show "agree (evalProps ev ps (AList.update k v acc) K1) (evalProps ev ps (AList.update k v acc) K1')"
      using Cons.IH [OF b w] Cons.prems(3) by simp
  qed
qed

lemma agree_step:
  assumes m: "agree m m'" and k: "keepsTables m K"
    and f: "\<And>sc1 K1 K1'. sameTables K K1 \<Longrightarrow> sameWorld K1 K1' \<Longrightarrow> agree (cont sc1 K1) (cont sc1 K1')"
  shows "agree
     (andThen m (\<lambda>(result, scope1) K1.
        case result of Some v \<Rightarrow> ok (Some v, scope1) K1 | None \<Rightarrow> cont scope1 K1))
     (andThen m' (\<lambda>(result, scope1) K1.
        case result of Some v \<Rightarrow> ok (Some v, scope1) K1 | None \<Rightarrow> cont scope1 K1))"
  by (rule agree_andThen [OF m k]) (auto split: option.split intro: agree_basic f)

lemma agree_blockLoop:
  assumes ex: "\<And>s sc K K'. s \<in> set ss \<Longrightarrow> builtins K = T \<Longrightarrow> sameWorld K K' \<Longrightarrow> agree (ex s sc K) (ex s sc K')"
    and keep: "\<And>s sc K. keepsTables (ex s sc K) K"
  shows "builtins K = T \<Longrightarrow> sameWorld K K' \<Longrightarrow> agree (blockLoop ex ss sc K) (blockLoop ex ss sc K')"
  using ex
proof (induction ss arbitrary: K K' sc)
  case Nil
  then show ?case by (simp add: agree_basic)
next
  case (Cons s ss)
  show ?case
    unfolding blockLoop.simps
  proof (rule agree_step [where K = K])
    show "agree (ex s sc K) (ex s sc K')" using Cons.prems by simp
    show "keepsTables (ex s sc K) K" by (rule keep)
  next
    fix sc1 K1 K1'
    assume s: "sameTables K K1" and w: "sameWorld K1 K1'"
    from s Cons.prems(1) have b: "builtins K1 = T" by (simp add: sameTables_def)
    show "agree (blockLoop ex ss sc1 K1) (blockLoop ex ss sc1 K1')"
      using Cons.IH [OF b w] Cons.prems(3) by simp
  qed
qed

lemma agree_forLoop:
  assumes blk: "\<And>sc K K'. builtins K = T \<Longrightarrow> sameWorld K K' \<Longrightarrow> agree (blk sc K) (blk sc K')"
    and keep: "\<And>sc K. keepsTables (blk sc K) K"
  shows "builtins K = T \<Longrightarrow> sameWorld K K' \<Longrightarrow>
    agree (forLoop blk item items sc K) (forLoop blk item items sc K')"
proof (induction items arbitrary: K K' sc)
  case Nil
  then show ?case by (simp add: agree_basic)
next
  case (Cons x items)
  show ?case
    unfolding forLoop.simps
  proof (rule agree_step [where K = K])
    show "agree (blk (sc(item \<mapsto> x)) K) (blk (sc(item \<mapsto> x)) K')" using Cons.prems by (rule blk)
    show "keepsTables (blk (sc(item \<mapsto> x)) K) K" by (rule keep)
  next
    fix sc1 K1 K1'
    assume s: "sameTables K K1" and w: "sameWorld K1 K1'"
    from s Cons.prems(1) have b: "builtins K1 = T" by (simp add: sameTables_def)
    show "agree (forLoop blk item items sc1 K1) (forLoop blk item items sc1 K1')"
      using Cons.IH [OF b w] .
  qed
qed

lemma agree_forOfArray:
  assumes blk: "\<And>sc K K'. builtins K = T \<Longrightarrow> sameWorld K K' \<Longrightarrow> agree (blk sc K) (blk sc K')"
    and keep: "\<And>sc K. keepsTables (blk sc K) K"
  shows "builtins K = T \<Longrightarrow> sameWorld K K' \<Longrightarrow>
    agree (forOfArray blk item a k i sc K) (forOfArray blk item a k i sc K')"
proof (induction k arbitrary: K K' sc i)
  case 0
  then show ?case by (simp add: agree_basic)
next
  case (Suc k)
  from Suc.prems(2) have hp: "heap K' = heap K" by (simp add: sameWorld_def)
  show ?case
  proof (cases "cellAt (heap K) a")
    case None
    with hp Suc.prems show ?thesis by (simp add: agree_basic)
  next
    case (Some c)
    show ?thesis
    proof (cases c)
      case (ObjectCell ps)
      with Some hp Suc.prems show ?thesis by (simp add: agree_basic)
    next
      case (ArrayCell xs)
      show ?thesis
      proof (cases "i < length xs")
        case False
        with ArrayCell Some hp Suc.prems show ?thesis by (simp add: agree_basic)
      next
        case True
        have "agree
          (andThen (blk (sc(item \<mapsto> xs ! i)) K) (\<lambda>(result, scope1) K1.
            case result of Some v \<Rightarrow> ok (Some v, scope1) K1
            | None \<Rightarrow> forOfArray blk item a k (Suc i) scope1 K1))
          (andThen (blk (sc(item \<mapsto> xs ! i)) K') (\<lambda>(result, scope1) K1.
            case result of Some v \<Rightarrow> ok (Some v, scope1) K1
            | None \<Rightarrow> forOfArray blk item a k (Suc i) scope1 K1))"
        proof (rule agree_step [where K = K])
          show "agree (blk (sc(item \<mapsto> xs ! i)) K) (blk (sc(item \<mapsto> xs ! i)) K')"
            using Suc.prems by (rule blk)
          show "keepsTables (blk (sc(item \<mapsto> xs ! i)) K) K" by (rule keep)
        next
          fix sc1 K1 K1'
          assume s: "sameTables K K1" and w: "sameWorld K1 K1'"
          from s Suc.prems(1) have b: "builtins K1 = T" by (simp add: sameTables_def)
          show "agree (forOfArray blk item a k (Suc i) sc1 K1) (forOfArray blk item a k (Suc i) sc1 K1')"
            using Suc.IH [OF b w] .
        qed
        with True ArrayCell Some hp show ?thesis by simp
      qed
    qed
  qed
qed

lemma agree_whileLoop:
  assumes g: "\<And>sc K K'. builtins K = T \<Longrightarrow> sameWorld K K' \<Longrightarrow> agree (guard sc K) (guard sc K')"
    and blk: "\<And>sc K K'. builtins K = T \<Longrightarrow> sameWorld K K' \<Longrightarrow> agree (blk sc K) (blk sc K')"
    and keepg: "\<And>sc K. keepsTables (guard sc K) K"
    and keep: "\<And>sc K. keepsTables (blk sc K) K"
  shows "builtins K = T \<Longrightarrow> sameWorld K K' \<Longrightarrow>
    agree (whileLoop b guard blk k it sc K) (whileLoop b guard blk k it sc K')"
proof (induction k arbitrary: K K' sc it)
  case 0
  then show ?case by (simp add: agree_basic)
next
  case (Suc k)
  show ?case
    unfolding whileLoop.simps
  proof (rule agree_andThen [where K = K])
    show "agree (guard sc K) (guard sc K')" using Suc.prems by (rule g)
    show "keepsTables (guard sc K) K" by (rule keepg)
  next
    fix gv K1 K1'
    assume s: "sameTables K K1" and w: "sameWorld K1 K1'"
    from s Suc.prems(1) have b: "builtins K1 = T" by (simp add: sameTables_def)
    have body: "agree
       (andThen (blk sc K1) (\<lambda>(result, scope1) K2.
          case result of Some v \<Rightarrow> ok (Some v, scope1) K2
          | None \<Rightarrow> whileLoop b guard blk k (Suc it) scope1 K2))
       (andThen (blk sc K1') (\<lambda>(result, scope1) K2.
          case result of Some v \<Rightarrow> ok (Some v, scope1) K2
          | None \<Rightarrow> whileLoop b guard blk k (Suc it) scope1 K2))"
    proof (rule agree_step [where K = K1])
      show "agree (blk sc K1) (blk sc K1')" using b w by (rule blk)
      show "keepsTables (blk sc K1) K1" by (rule keep)
    next
      fix sc1 K2 K2'
      assume s2: "sameTables K1 K2" and w2: "sameWorld K2 K2'"
      from s2 b have b2: "builtins K2 = T" by (simp add: sameTables_def)
      show "agree (whileLoop b guard blk k (Suc it) sc1 K2) (whileLoop b guard blk k (Suc it) sc1 K2')"
        using Suc.IH [OF b2 w2] .
    qed
    show "agree
       (if truthy gv then
          if b = DistJs \<and> maxIterations < Suc it then raise LoopLimitExceeded K1
          else andThen (blk sc K1) (\<lambda>(result, scope1) K2.
                 case result of Some v \<Rightarrow> ok (Some v, scope1) K2
                 | None \<Rightarrow> whileLoop b guard blk k (Suc it) scope1 K2)
        else ok (None, sc) K1)
       (if truthy gv then
          if b = DistJs \<and> maxIterations < Suc it then raise LoopLimitExceeded K1'
          else andThen (blk sc K1') (\<lambda>(result, scope1) K2.
                 case result of Some v \<Rightarrow> ok (Some v, scope1) K2
                 | None \<Rightarrow> whileLoop b guard blk k (Suc it) scope1 K2)
        else ok (None, sc) K1')"
      using body w by (simp add: agree_basic)
  qed
qed


lemma sameWorld_fields:
  "sameWorld K K' \<Longrightarrow> builtins K' = builtins K"
  "sameWorld K K' \<Longrightarrow> allowedMethods K' = allowedMethods K"
  "sameWorld K K' \<Longrightarrow> heap K' = heap K"
  by (simp_all add: sameWorld_def sameTables_def)

lemma sameTables_builtins: "sameTables K K1 \<Longrightarrow> builtins K1 = builtins K"
  by (simp add: sameTables_def)

lemma agree_all:
  "(\<forall>e sc K K'. callsOnly (beforeCache h ctx T) e \<longrightarrow> builtins K = T \<longrightarrow> sameWorld K K' \<longrightarrow>
       agree (evalExpr b h n e sc ctx K) (evalExpr b h n e sc ctx K'))
   \<and> (\<forall>s sc K K'. stmtCallsOnly (beforeCache h ctx T) s \<longrightarrow> builtins K = T \<longrightarrow> sameWorld K K' \<longrightarrow>
       agree (executeStmt b h n s sc ctx K) (executeStmt b h n s sc ctx K'))"
proof (induction n)
  case 0
  show ?case by (simp add: agree_basic)
next
  case (Suc n)
  let ?P = "beforeCache h ctx T"
  from Suc have ev: "\<And>e sc K K'. callsOnly ?P e \<Longrightarrow> builtins K = T \<Longrightarrow> sameWorld K K' \<Longrightarrow>
       agree (evalExpr b h n e sc ctx K) (evalExpr b h n e sc ctx K')"
    and ex: "\<And>s sc K K'. stmtCallsOnly ?P s \<Longrightarrow> builtins K = T \<Longrightarrow> sameWorld K K' \<Longrightarrow>
       agree (executeStmt b h n s sc ctx K) (executeStmt b h n s sc ctx K')"
    by blast+
  have kev: "\<And>e sc K. keepsTables (evalExpr b h n e sc ctx K) K"
    and kex: "\<And>s sc K. keepsTables (executeStmt b h n s sc ctx K) K"
    using keeps_all [of b h n] by blast+
  have kargs: "\<And>es sc K. keepsTables (evalList (\<lambda>a. evalExpr b h n a sc ctx) es K) K"
    by (rule keeps_evalList) (rule kev)
  have kprops: "\<And>ps acc sc K. keepsTables (evalProps (\<lambda>a. evalExpr b h n a sc ctx) ps acc K) K"
    by (rule keeps_evalProps) (rule kev)
  have kbl: "\<And>ss sc K. keepsTables (executeBlock b h n ss sc ctx K) K"
    unfolding executeBlock_def by (rule keeps_blockLoop) (rule kex)
  have args: "\<And>es sc K K'. \<forall>e\<in>set es. callsOnly ?P e \<Longrightarrow> builtins K = T \<Longrightarrow> sameWorld K K' \<Longrightarrow>
      agree (evalList (\<lambda>a. evalExpr b h n a sc ctx) es K) (evalList (\<lambda>a. evalExpr b h n a sc ctx) es K')"
    by (rule agree_evalList [where T = T]) (auto intro: ev kev)
  have props: "\<And>ps acc sc K K'. \<forall>p\<in>set ps. callsOnly ?P (snd p) \<Longrightarrow> builtins K = T \<Longrightarrow> sameWorld K K' \<Longrightarrow>
      agree (evalProps (\<lambda>a. evalExpr b h n a sc ctx) ps acc K) (evalProps (\<lambda>a. evalExpr b h n a sc ctx) ps acc K')"
    by (rule agree_evalProps [where T = T]) (auto intro: ev kev)
  have bl: "\<And>ss sc K K'. \<forall>s\<in>set ss. stmtCallsOnly ?P s \<Longrightarrow> builtins K = T \<Longrightarrow> sameWorld K K' \<Longrightarrow>
      agree (executeBlock b h n ss sc ctx K) (executeBlock b h n ss sc ctx K')"
    unfolding executeBlock_def by (rule agree_blockLoop [where T = T]) (auto intro: ex kex)
  have E: "agree (evalExpr b h (Suc n) e sc ctx K) (evalExpr b h (Suc n) e sc ctx K')"
    if c: "callsOnly ?P e" and t: "builtins K = T" and w: "sameWorld K K'" for e sc K K'
  proof (cases e)
    case (CallExpr f es)
    with c have f: "?P f" and es: "\<forall>e\<in>set es. callsOnly ?P e"
      by (simp_all add: list_all_map_id)
    show ?thesis
      unfolding CallExpr evalExpr_call
    proof (rule agree_andThen [where K = K])
      show "agree (evalList (\<lambda>a. evalExpr b h n a sc ctx) es K) (evalList (\<lambda>a. evalExpr b h n a sc ctx) es K')"
        using es t w by (rule args)
      show "keepsTables (evalList (\<lambda>a. evalExpr b h n a sc ctx) es K) K" by (rule kargs)
    next
      fix vs K1 K1'
      assume s: "sameTables K K1" and w1: "sameWorld K1 K1'"
      from s t have b1: "builtins K1 = T" by (simp add: sameTables_def)
      from w1 b1 have b1': "builtins K1' = T" by (simp add: sameWorld_fields)
      from f show "agree
        (case ctxBuiltin h ctx f of
           Some fn \<Rightarrow> callHost (CtxBuiltinCall f vs) fn vs K1
         | None \<Rightarrow>
          (case plainObject h (builtins K1) f of
             Some fn \<Rightarrow> callHost (BuiltinCall f vs) fn vs K1
           | None \<Rightarrow>
            (case ctxFunction h ctx f of
               Some fn \<Rightarrow> callHost (CtxFunctionCall f vs) fn vs K1
             | None \<Rightarrow>
              (case compiledFunctions K1 f of
                 Some compiledFn \<Rightarrow> invoke b h n compiledFn vs K1
               | None \<Rightarrow>
                  if functionDefs K1 f \<noteq> None then
                    (case compile f ctx K1 of
                       (Inl e, K2) \<Rightarrow> raise e K2
                     | (Inr fn, K2) \<Rightarrow> invoke b h n fn vs K2)
                  else raise (UnknownFunction f) K1))))
        (case ctxBuiltin h ctx f of
           Some fn \<Rightarrow> callHost (CtxBuiltinCall f vs) fn vs K1'
         | None \<Rightarrow>
          (case plainObject h (builtins K1') f of
             Some fn \<Rightarrow> callHost (BuiltinCall f vs) fn vs K1'
           | None \<Rightarrow>
            (case ctxFunction h ctx f of
               Some fn \<Rightarrow> callHost (CtxFunctionCall f vs) fn vs K1'
             | None \<Rightarrow>
              (case compiledFunctions K1' f of
                 Some compiledFn \<Rightarrow> invoke b h n compiledFn vs K1'
               | None \<Rightarrow>
                  if functionDefs K1' f \<noteq> None then
                    (case compile f ctx K1' of
                       (Inl e, K2) \<Rightarrow> raise e K2
                     | (Inr fn, K2) \<Rightarrow> invoke b h n fn vs K2)
                  else raise (UnknownFunction f) K1'))))"
        unfolding b1 b1' beforeCache_def
        by (cases "ctxBuiltin h ctx f"; cases "plainObject h T f"; cases "ctxFunction h ctx f")
          (simp_all add: agree_callHost [OF w1])
    qed
  next
    case (MethodExpr m obj es)
    with c have o: "callsOnly ?P obj" and es: "\<forall>e\<in>set es. callsOnly ?P e"
      by (simp_all add: list_all_map_id)
    show ?thesis
      unfolding MethodExpr evalExpr_method
    proof (rule agree_andThen [where K = K])
      show "agree (evalExpr b h n obj sc ctx K) (evalExpr b h n obj sc ctx K')"
        using o t w by (rule ev)
      show "keepsTables (evalExpr b h n obj sc ctx K) K" by (rule kev)
    next
      fix v K1 K1'
      assume s: "sameTables K K1" and w1: "sameWorld K1 K1'"
      from s t have b1: "builtins K1 = T" by (simp add: sameTables_def)
      have call: "agree
          (andThen (evalList (\<lambda>a. evalExpr b h n a sc ctx) es K1)
             (\<lambda>args K2. callHost (MethodCall v m args) (js_apply h f v) args K2))
          (andThen (evalList (\<lambda>a. evalExpr b h n a sc ctx) es K1')
             (\<lambda>args K2. callHost (MethodCall v m args) (js_apply h f v) args K2))" for f
        by (rule agree_andThen [where K = K1, OF args [OF es b1 w1] kargs]) (rule agree_callHost)
      show "agree
        (if m \<notin> allowedMethods K1 then raise (MethodNotAllowed m) K1
         else if v = Null \<or> v = Undefined then raise (NullReceiver m) K1
         else (case js_get h (heap K1) v (Str m) of
                 Fn f \<Rightarrow>
                  andThen (evalList (\<lambda>a. evalExpr b h n a sc ctx) es K1)
                    (\<lambda>args K2. callHost (MethodCall v m args) (js_apply h f v) args K2)
               | method \<Rightarrow> ok method K1))
        (if m \<notin> allowedMethods K1' then raise (MethodNotAllowed m) K1'
         else if v = Null \<or> v = Undefined then raise (NullReceiver m) K1'
         else (case js_get h (heap K1') v (Str m) of
                 Fn f \<Rightarrow>
                  andThen (evalList (\<lambda>a. evalExpr b h n a sc ctx) es K1')
                    (\<lambda>args K2. callHost (MethodCall v m args) (js_apply h f v) args K2)
               | method \<Rightarrow> ok method K1'))"
        unfolding sameWorld_fields [OF w1]
        by (auto intro: agree_basic w1 call split: jsval.split)
    qed
  qed (use c t w in \<open>auto simp add: list_all_map_id list_all_props sameWorld_fields
         intro!: agree_andThen agree_basic agree_allocate ev args props kev kargs kprops
         dest: sameTables_builtins\<close>)
  have S: "agree (executeStmt b h (Suc n) s sc ctx K) (executeStmt b h (Suc n) s sc ctx K')"
    if c: "stmtCallsOnly ?P s" and t: "builtins K = T" and w: "sameWorld K K'" for s sc K K'
  proof (cases s)
    case (IfStmt condE thenB elseB)
    with c have ce: "callsOnly ?P condE" and ct: "\<forall>s\<in>set thenB. stmtCallsOnly ?P s"
      and cel: "\<And>eb. elseB = Some eb \<Longrightarrow> \<forall>s\<in>set eb. stmtCallsOnly ?P s"
      by (simp_all add: list_all_map_id)
    show ?thesis
      unfolding IfStmt executeStmt_if
    proof (rule agree_andThen [where K = K])
      show "agree (evalExpr b h n condE sc ctx K) (evalExpr b h n condE sc ctx K')"
        using ce t w by (rule ev)
      show "keepsTables (evalExpr b h n condE sc ctx K) K" by (rule kev)
    next
      fix v K1 K1'
      assume s: "sameTables K K1" and w1: "sameWorld K1 K1'"
      from s t have b1: "builtins K1 = T" by (simp add: sameTables_def)
      show "agree
        (if truthy v then executeBlock b h n thenB sc ctx K1
         else (case elseB of Some eb \<Rightarrow> executeBlock b h n eb sc ctx K1 | None \<Rightarrow> ok (None, sc) K1))
        (if truthy v then executeBlock b h n thenB sc ctx K1'
         else (case elseB of Some eb \<Rightarrow> executeBlock b h n eb sc ctx K1' | None \<Rightarrow> ok (None, sc) K1'))"
        using bl [OF ct b1 w1] bl [OF cel b1 w1] w1
        by (cases elseB) (simp_all add: agree_basic)
    qed
  next
    case (ForStmt item inE doB)
    with c have ce: "callsOnly ?P inE" and cb: "\<forall>s\<in>set doB. stmtCallsOnly ?P s"
      by (simp_all add: list_all_map_id)
    have blk: "\<And>sc K K'. builtins K = T \<Longrightarrow> sameWorld K K' \<Longrightarrow>
        agree (executeBlock b h n doB sc ctx K) (executeBlock b h n doB sc ctx K')"
      by (rule bl [OF cb])
    show ?thesis
      unfolding ForStmt executeStmt_for
    proof (rule agree_andThen [where K = K])
      show "agree (evalExpr b h n inE sc ctx K) (evalExpr b h n inE sc ctx K')"
        using ce t w by (rule ev)
      show "keepsTables (evalExpr b h n inE sc ctx K) K" by (rule kev)
    next
      fix v K1 K1'
      assume s: "sameTables K K1" and w1: "sameWorld K1 K1'"
      from s t have b1: "builtins K1 = T" by (simp add: sameTables_def)
      have str: "agree
          (forLoop (\<lambda>sc. executeBlock b h n doB sc ctx) item items sc K1)
          (forLoop (\<lambda>sc. executeBlock b h n doB sc ctx) item items sc K1')" for items
        by (rule agree_forLoop [where T = T, OF blk kbl b1 w1])
      have arr: "agree
          (forOfArray (\<lambda>sc. executeBlock b h n doB sc ctx) item a n 0 sc K1)
          (forOfArray (\<lambda>sc. executeBlock b h n doB sc ctx) item a n 0 sc K1')" for a
        by (rule agree_forOfArray [where T = T, OF blk kbl b1 w1])
      show "agree
        (if \<not> truthy v then raise NotIterable K1
         else (case v of
                 Str s \<Rightarrow>
                  forLoop (\<lambda>sc. executeBlock b h n doB sc ctx) item (map (\<lambda>c. Str [c]) s) sc K1
               | ObjRef a \<Rightarrow>
                  if isArray (heap K1) v then
                    forOfArray (\<lambda>sc. executeBlock b h n doB sc ctx) item a n 0 sc K1
                  else raise NotIterable K1
               | _ \<Rightarrow> raise NotIterable K1))
        (if \<not> truthy v then raise NotIterable K1'
         else (case v of
                 Str s \<Rightarrow>
                  forLoop (\<lambda>sc. executeBlock b h n doB sc ctx) item (map (\<lambda>c. Str [c]) s) sc K1'
               | ObjRef a \<Rightarrow>
                  if isArray (heap K1') v then
                    forOfArray (\<lambda>sc. executeBlock b h n doB sc ctx) item a n 0 sc K1'
                  else raise NotIterable K1'
               | _ \<Rightarrow> raise NotIterable K1'))"
        unfolding sameWorld_fields [OF w1]
        by (cases v) (simp_all add: agree_basic w1 str arr)
    qed
  next
    case (WhileStmt guard doB)
    with c have cg: "callsOnly ?P guard" and cb: "\<forall>s\<in>set doB. stmtCallsOnly ?P s"
      by (simp_all add: list_all_map_id)
    show ?thesis
      unfolding WhileStmt executeStmt_while
      by (rule agree_whileLoop [where T = T, OF ev [OF cg] bl [OF cb] kev kbl t w])
  qed (use c t w in \<open>auto intro!: agree_andThen agree_basic ev kev\<close>)
  from E S show ?case by blast
qed


lemma agree_invoke:
  assumes c: "\<And>c. fd_config (cl_def cl) = Some c \<Longrightarrow> configCallsOnly (beforeCache h (cl_ctx cl) (builtins K)) c"
      and w: "sameWorld K K'"
  shows "agree (invoke b h n cl args K) (invoke b h n cl args K')"
proof (cases n)
  case 0
  then show ?thesis by (simp add: agree_basic)
next
  case (Suc m)
  define ctx where "ctx = cl_ctx cl"
  define T where "T = builtins K"
  define K1 where "K1 = (if hasOnCall ctx then emit (OnCall (cl_name cl) args) K else K)"
  define K1' where "K1' = (if hasOnCall ctx then emit (OnCall (cl_name cl) args) K' else K')"
  have w1: "sameWorld K1 K1'" unfolding K1_def K1'_def using w by (rule sameWorld_if_emit)
  have t1: "builtins K1 = T" by (simp add: K1_def T_def emit_def)
  note all = agree_all [of h ctx T b m]
  have kev: "\<And>e sc K. keepsTables (evalExpr b h m e sc ctx K) K"
    and kex: "\<And>s sc K. keepsTables (executeStmt b h m s sc ctx K) K"
    using keeps_all [of b h m] by blast+
  have kbl: "\<And>ss sc K. keepsTables (executeBlock b h m ss sc ctx K) K"
    unfolding executeBlock_def by (rule keeps_blockLoop) (rule kex)
  show ?thesis
  proof (cases "fd_config (cl_def cl)")
    case None
    then show ?thesis using w1 unfolding Suc invoke_Suc Let_def K1_def K1'_def ctx_def
      by (simp add: agree_basic)
  next
    case (Some cf)
    from c [OF Some] have cc: "configCallsOnly (beforeCache h ctx T) cf" by (simp add: ctx_def T_def)
    define K2 where "K2 = (if fc_debug cf then emit (DebugCalled (cl_name cl) args) K1 else K1)"
    define K2' where "K2' = (if fc_debug cf then emit (DebugCalled (cl_name cl) args) K1' else K1')"
    have w2: "sameWorld K2 K2'" unfolding K2_def K2'_def using w1 by (rule sameWorld_if_emit)
    have t2: "builtins K2 = T" using t1 by (simp add: K2_def emit_def)
    show ?thesis
    proof (cases "fc_body cf")
      case None
      with Some show ?thesis using w2 unfolding Suc invoke_Suc Let_def K1_def K1'_def K2_def K2'_def ctx_def
        by (simp add: agree_basic)
    next
      case body: (Some body)
      from cc body have cb: "\<forall>s\<in>set body. stmtCallsOnly (beforeCache h ctx T) s"
        by (simp add: configCallsOnly_def list_all_iff)
      from cc have cr: "\<And>e. fc_return cf = Some e \<Longrightarrow> callsOnly (beforeCache h ctx T) e"
        by (simp add: configCallsOnly_def)
      let ?sc = "bindParams (cl_params cl) args (seedScope ctx)"
      let ?ret = "\<lambda>(result, scope1) K3.
         andThen (case result of
                    Some v \<Rightarrow> ok v K3
                  | None \<Rightarrow>
                     (case fc_return cf of
                        None \<Rightarrow> ok Undefined K3
                      | Some e \<Rightarrow>
                         if exprTruthy e then evalExpr b h m e scope1 ctx K3
                         else ok Undefined K3))
           (\<lambda>returnValue K4.
             let K5 = (if fc_debug cf then emit (DebugReturned (cl_name cl) returnValue) K4 else K4);
                 K6 = (if hasOnReturn ctx then emit (OnReturn (cl_name cl) returnValue) K5 else K5)
             in ok returnValue K6)"
      have blk: "agree (executeBlock b h m body ?sc ctx K2) (executeBlock b h m body ?sc ctx K2')"
        unfolding executeBlock_def
        by (rule agree_blockLoop [where T = T, OF _ kex t2 w2]) (use all cb in blast)
      have "agree (andThen (executeBlock b h m body ?sc ctx K2) ?ret)
                  (andThen (executeBlock b h m body ?sc ctx K2') ?ret)"
      proof (rule agree_andThen [where K = K2, OF blk kbl])
        fix a :: "jsval option \<times> scope" and K3 K3'
        assume s3: "sameTables K2 K3" and w3: "sameWorld K3 K3'"
        from s3 t2 have t3: "builtins K3 = T" by (simp add: sameTables_def)
        obtain r sc1 where a: "a = (r, sc1)" by (cases a)
        have fin: "agree
            (let K5 = (if fc_debug cf then emit (DebugReturned (cl_name cl) v) K4 else K4);
                 K6 = (if hasOnReturn ctx then emit (OnReturn (cl_name cl) v) K5 else K5)
             in ok v K6)
            (let K5 = (if fc_debug cf then emit (DebugReturned (cl_name cl) v) K4' else K4');
                 K6 = (if hasOnReturn ctx then emit (OnReturn (cl_name cl) v) K5 else K5)
             in ok v K6)" if "sameWorld K4 K4'" for v K4 K4'
          unfolding Let_def using that by (intro agree_basic sameWorld_if_emit)
        have val: "agree
            (case r of
               Some v \<Rightarrow> ok v K3
             | None \<Rightarrow>
                (case fc_return cf of
                   None \<Rightarrow> ok Undefined K3
                 | Some e \<Rightarrow> if exprTruthy e then evalExpr b h m e sc1 ctx K3 else ok Undefined K3))
            (case r of
               Some v \<Rightarrow> ok v K3'
             | None \<Rightarrow>
                (case fc_return cf of
                   None \<Rightarrow> ok Undefined K3'
                 | Some e \<Rightarrow> if exprTruthy e then evalExpr b h m e sc1 ctx K3' else ok Undefined K3'))"
          using all cr t3 w3 by (auto split: option.split intro!: agree_basic)
        have kval: "keepsTables
            (case r of
               Some v \<Rightarrow> ok v K3
             | None \<Rightarrow>
                (case fc_return cf of
                   None \<Rightarrow> ok Undefined K3
                 | Some e \<Rightarrow> if exprTruthy e then evalExpr b h m e sc1 ctx K3 else ok Undefined K3)) K3"
          by (auto split: option.split intro: kev)
        show "agree (?ret a K3) (?ret a K3')"
          unfolding a prod.case
          by (rule agree_andThen [where K = K3, OF val kval]) (rule fin)
      qed
      with Some body show ?thesis
        unfolding Suc invoke_Suc Let_def K1_def K1'_def K2_def K2'_def ctx_def
        by simp
    qed
  qed
qed


lemma agree_returned: "agree m m' \<Longrightarrow> returned m' = returned m"
  by (auto simp add: agree_def returned_def split: option.splits)

lemma bindParams_other: "x \<notin> set ps \<Longrightarrow> bindParams ps args sc x = sc x"
  by (induction ps arbitrary: args sc) simp_all

lemma returns_variable:
  assumes c: "fd_config (cl_def cl) = Some c" and body: "fc_body c = Some []"
    and ret: "fc_return c = Some (RefExpr x)" and x: "x \<notin> set (cl_params cl)"
    and v: "seedScope (cl_ctx cl) x = Some v"
  shows "returned (invoke b h (Suc (Suc n)) cl args A) = Some (Inr v)"
  using c body ret v bindParams_other [OF x, of args "seedScope (cl_ctx cl)"]
  by (simp add: invoke_Suc Let_def andThen_simps ok_def returned_def)

lemma compile_sameWorld: "compile f ctx K = (r, K1) \<Longrightarrow> sameWorld K K1"
  by (auto simp add: compile_def sameWorld_def sameTables_def Let_def split: option.splits)





section \<open>The flat scope\<close>

text \<open>
  A block that runs through hands its scope to what follows it, and a block that ends
  in \<open>let x = e\<close> leaves the scope of its other statements with \<open>x\<close> bound to the value
  of \<open>e\<close>.  The scope that a loop leaves is the one that the last run of its body left.
\<close>

lemma block_prefix:
  "executeBlock b h n bs sc ctx K = Some (Inr (None, sc1), K1) \<Longrightarrow>
   executeBlock b h n (bs @ cs) sc ctx K = executeBlock b h n cs sc1 ctx K1"
proof (induction bs arbitrary: sc K)
  case Nil
  then show ?case by (simp add: ok_def)
next
  case (Cons s bs)
  show ?case
  proof (cases "executeStmt b h n s sc ctx K")
    case None
    with Cons.prems show ?thesis by (simp add: andThen_simps)
  next
    case (Some p)
    obtain r K0 where p: "p = (r, K0)" by (cases p)
    show ?thesis
    proof (cases r)
      case (Inl e)
      with Some p Cons.prems show ?thesis by (simp add: andThen_simps)
    next
      case (Inr q)
      obtain res sc0 where q: "q = (res, sc0)" by (cases q)
      show ?thesis
      proof (cases res)
        case None
        with Some p Inr q Cons.prems Cons.IH [of sc0 K0] show ?thesis by (simp add: andThen_simps)
      next
        case (Some v)
        with \<open>executeStmt b h n s sc ctx K = Some p\<close> p Inr q Cons.prems show ?thesis
          by (simp add: andThen_simps ok_def)
      qed
    qed
  qed
qed

lemma block_split:
  "executeBlock b h n (bs @ cs) sc ctx K = Some (Inr (None, sc'), K') \<Longrightarrow>
   \<exists>sc1 K1. executeBlock b h n bs sc ctx K = Some (Inr (None, sc1), K1)
     \<and> executeBlock b h n cs sc1 ctx K1 = Some (Inr (None, sc'), K')"
proof (induction bs arbitrary: sc K)
  case Nil
  then show ?case by (simp add: ok_def)
next
  case (Cons s bs)
  show ?case
  proof (cases "executeStmt b h n s sc ctx K")
    case None
    with Cons.prems show ?thesis by (simp add: andThen_simps)
  next
    case (Some p)
    obtain r K0 where p: "p = (r, K0)" by (cases p)
    show ?thesis
    proof (cases r)
      case (Inl e)
      with Some p Cons.prems show ?thesis by (simp add: andThen_simps)
    next
      case (Inr q)
      obtain res sc0 where q: "q = (res, sc0)" by (cases q)
      show ?thesis
      proof (cases res)
        case None
        with Some p Inr q Cons.prems Cons.IH [of sc0 K0] show ?thesis by (simp add: andThen_simps)
      next
        case (Some v)
        with \<open>executeStmt b h n s sc ctx K = Some p\<close> p Inr q Cons.prems show ?thesis
          by (simp add: andThen_simps ok_def)
      qed
    qed
  qed
qed

lemma let_alone:
  "executeBlock b h (Suc n) [LetStmt x e] sc ctx K =
     andThen (evalExpr b h n e sc ctx K) (\<lambda>v K1. ok (None, sc(x \<mapsto> v)) K1)"
  by (auto simp add: andThen_def ok_def split: option.splits sum.splits prod.splits)

lemma block_ending_in_let:
  assumes "executeBlock b h (Suc n) bs sc ctx K = Some (Inr (None, sc1), K1)"
      and "evalExpr b h n e sc1 ctx K1 = Some (Inr v, K2)"
  shows "executeBlock b h (Suc n) (bs @ [LetStmt x e]) sc ctx K = Some (Inr (None, sc1(x \<mapsto> v)), K2)"
  using block_prefix [OF assms(1), of "[LetStmt x e]"] assms(2)
  by (simp only: let_alone andThen_simps ok_def)

lemma block_ended_in_let:
  assumes "executeBlock b h (Suc n) (bs @ [LetStmt x e]) sc ctx K = Some (Inr (None, sc'), K')"
  shows "\<exists>sc1 K1 v. executeBlock b h (Suc n) bs sc ctx K = Some (Inr (None, sc1), K1)
      \<and> evalExpr b h n e sc1 ctx K1 = Some (Inr v, K') \<and> sc' = sc1(x \<mapsto> v)"
proof -
  from block_split [OF assms] obtain sc1 K1 where
    p: "executeBlock b h (Suc n) bs sc ctx K = Some (Inr (None, sc1), K1)" and
    l: "executeBlock b h (Suc n) [LetStmt x e] sc1 ctx K1 = Some (Inr (None, sc'), K')" by blast
  from l have "\<exists>v. evalExpr b h n e sc1 ctx K1 = Some (Inr v, K') \<and> sc' = sc1(x \<mapsto> v)"
    unfolding let_alone
    by (auto simp add: andThen_def ok_def split: option.splits sum.splits prod.splits)
  with p show ?thesis by blast
qed

lemma forLoop_last:
  "forLoop blk item items sc K = Some (Inr (None, sc'), K') \<Longrightarrow>
   (items = [] \<and> sc' = sc \<and> K' = K) \<or> (\<exists>sc0 K0. blk sc0 K0 = Some (Inr (None, sc'), K'))"
proof (induction items arbitrary: sc K)
  case Nil
  then show ?case by (simp add: ok_def)
next
  case (Cons y items)
  from Cons.prems obtain sc1 K1 where
    b: "blk (sc(item \<mapsto> y)) K = Some (Inr (None, sc1), K1)" and
    r: "forLoop blk item items sc1 K1 = Some (Inr (None, sc'), K')"
    by (auto simp add: andThen_def ok_def split: option.splits sum.splits prod.splits)
  from Cons.IH [OF r] b show ?case by auto
qed

lemma forOfArray_last:
  "forOfArray blk item a k i sc K = Some (Inr (None, sc'), K') \<Longrightarrow>
   (lengthOf (heap K) (ObjRef a) \<le> i \<and> sc' = sc \<and> K' = K)
   \<or> (\<exists>sc0 K0. blk sc0 K0 = Some (Inr (None, sc'), K'))"
proof (induction k arbitrary: sc K i)
  case 0
  then show ?case by simp
next
  case (Suc k)
  show ?case
  proof (cases "\<exists>xs. cellAt (heap K) a = Some (ArrayCell xs) \<and> i < length xs")
    case False
    with Suc.prems show ?thesis
      by (auto simp add: ok_def lengthOf_def split: option.splits cell.splits if_splits)
  next
    case True
    then obtain xs where xs: "cellAt (heap K) a = Some (ArrayCell xs)" "i < length xs" by blast
    with Suc.prems obtain sc1 K1 where
      b: "blk (sc(item \<mapsto> xs ! i)) K = Some (Inr (None, sc1), K1)" and
      r: "forOfArray blk item a k (Suc i) sc1 K1 = Some (Inr (None, sc'), K')"
      by (auto simp add: andThen_def ok_def split: option.splits sum.splits prod.splits)
    from Suc.IH [OF r] b show ?thesis by auto
  qed
qed

lemma whileLoop_last:
  "whileLoop b guard blk k it sc K = Some (Inr (None, sc'), K') \<Longrightarrow>
   (\<exists>g. guard sc K = Some (Inr g, K') \<and> \<not> truthy g \<and> sc' = sc)
   \<or> (\<exists>sc0 K0 Kb g. blk sc0 K0 = Some (Inr (None, sc'), Kb)
         \<and> guard sc' Kb = Some (Inr g, K') \<and> \<not> truthy g)"
proof (induction k arbitrary: sc K it)
  case 0
  then show ?case by simp
next
  case (Suc k)
  from Suc.prems obtain g K1 where g: "guard sc K = Some (Inr g, K1)"
    by (auto simp add: andThen_def split: option.splits sum.splits prod.splits)
  show ?case
  proof (cases "truthy g")
    case False
    with g Suc.prems show ?thesis by (simp add: andThen_simps ok_def)
  next
    case True
    with g Suc.prems obtain sc1 K2 where
      b: "blk sc K1 = Some (Inr (None, sc1), K2)" and
      r: "whileLoop b guard blk k (Suc it) sc1 K2 = Some (Inr (None, sc'), K')"
      by (auto simp add: andThen_def ok_def raise_def split: option.splits sum.splits prod.splits if_splits)
    from Suc.IH [OF r] b show ?thesis by auto
  qed
qed


lemma sum_step:
  assumes "addsNumbers h" and "sc ''total'' = Some (Num (Fin t))"
  shows "executeBlock b h (Suc (Suc (Suc n)))
           [SetStmt ''total'' (BinaryExpr ''+'' (RefExpr ''total'') (RefExpr ''item''))]
           (sc(''item'' \<mapsto> Num (Fin y))) ctx K
         = Some (Inr (None, sc(''item'' \<mapsto> Num (Fin y), ''total'' \<mapsto> Num (Fin (t + y)))), K)"
  using assms by (simp add: andThen_simps ok_def evalBinaryOp_def addsNumbers_def)

lemma sum_loop:
  assumes add: "addsNumbers h"
    and cell: "cellAt (heap K) a = Some (ArrayCell (map (\<lambda>x. Num (Fin x)) xs))"
  shows "sc ''total'' = Some (Num (Fin t)) \<Longrightarrow> i \<le> length xs \<Longrightarrow> length xs - i < k \<Longrightarrow>
    \<exists>sc'. forOfArray (\<lambda>sc. executeBlock b h (Suc (Suc (Suc n)))
              [SetStmt ''total'' (BinaryExpr ''+'' (RefExpr ''total'') (RefExpr ''item''))] sc ctx)
            ''item'' a k i sc K = Some (Inr (None, sc'), K)
        \<and> sc' ''total'' = Some (Num (Fin (t + sum_list (drop i xs))))"
proof (induction k arbitrary: sc t i)
  case 0
  then show ?case by simp
next
  case (Suc k)
  show ?case
  proof (cases "i < length xs")
    case False
    with Suc.prems cell show ?thesis by (simp add: ok_def)
  next
    case True
    let ?sc1 = "sc(''item'' \<mapsto> Num (Fin (xs ! i)), ''total'' \<mapsto> Num (Fin (t + xs ! i)))"
    have t1: "?sc1 ''total'' = Some (Num (Fin (t + xs ! i)))" by simp
    from True Suc.prems have "Suc i \<le> length xs" "length xs - Suc i < k" by simp_all
    from Suc.IH [of ?sc1 "t + xs ! i" "Suc i", OF t1 this] obtain sc' where
      r: "forOfArray (\<lambda>sc. executeBlock b h (Suc (Suc (Suc n)))
              [SetStmt ''total'' (BinaryExpr ''+'' (RefExpr ''total'') (RefExpr ''item''))] sc ctx)
            ''item'' a k (Suc i) ?sc1 K = Some (Inr (None, sc'), K)"
      and s: "sc' ''total'' = Some (Num (Fin (t + xs ! i + sum_list (drop (Suc i) xs))))" by blast
    from True have d: "drop i xs = xs ! i # drop (Suc i) xs" by (simp add: Cons_nth_drop_Suc)
    have main: "forOfArray (\<lambda>sc. executeBlock b h (Suc (Suc (Suc n)))
              [SetStmt ''total'' (BinaryExpr ''+'' (RefExpr ''total'') (RefExpr ''item''))] sc ctx)
            ''item'' a (Suc k) i sc K = Some (Inr (None, sc'), K)"
      using True cell r sum_step [where sc = sc and t = t, OF add Suc.prems(1), of b n "xs ! i" ctx K]
      by (simp add: andThen_simps del: executeBlock_simps)
    have "sc' ''total'' = Some (Num (Fin (t + sum_list (drop i xs))))"
      using s d by (simp add: add.assoc)
    with main show ?thesis by blast
  qed
qed

lemma sum_block:
  assumes add: "addsNumbers h"
    and cell: "cellAt (heap K) a = Some (ArrayCell (map (\<lambda>x. Num (Fin x)) xs))"
    and items: "sc ''items'' = Some (ObjRef a)"
    and fuel: "length xs \<le> n + 2"
  shows "\<exists>sc'. executeBlock b h (n + 4) sumArrayBody sc ctx K = Some (Inr (None, sc'), K)
        \<and> sc' ''total'' = Some (Num (Fin (sum_list xs)))"
proof -
  let ?sc0 = "sc(''total'' \<mapsto> Num (Fin 0))"
  have t0: "?sc0 ''total'' = Some (Num (Fin 0))" by simp
  from fuel have f: "length xs - 0 < Suc (Suc (Suc n))" by simp
  have z: "0 \<le> length xs" by simp
  from sum_loop [OF add cell, of ?sc0 0 0 "Suc (Suc (Suc n))" b n ctx, OF t0 z f] obtain sc' where
    r: "forOfArray (\<lambda>sc. executeBlock b h (Suc (Suc (Suc n)))
              [SetStmt ''total'' (BinaryExpr ''+'' (RefExpr ''total'') (RefExpr ''item''))] sc ctx)
            ''item'' a (Suc (Suc (Suc n))) 0 ?sc0 K = Some (Inr (None, sc'), K)"
    and s: "sc' ''total'' = Some (Num (Fin (sum_list xs)))" by auto
  have four: "n + 4 = Suc (Suc (Suc (Suc n)))" by simp
  have arr: "isArray (heap K) (ObjRef a)" using cell by (simp add: isArray_def)
  have "executeBlock b h (n + 4) sumArrayBody sc ctx K = Some (Inr (None, sc'), K)"
    unfolding four sumArrayBody_def using items arr r
    by (simp add: andThen_simps ok_def del: forOfArray.simps)
  with s show ?thesis by blast
qed


lemma sum_invoke:
  assumes add: "addsNumbers h"
    and cell: "cellAt (heap K) a = Some (ArrayCell (map (\<lambda>x. Num (Fin x)) xs))"
    and fuel: "length xs \<le> n + 2"
    and cl: "cl_def cl = sumArray" "cl_params cl = [''items'']"
  shows "returned (invoke b h (n + 5) cl [ObjRef a] K) = Some (Inr (Num (Fin (sum_list xs))))"
proof -
  define K1 where "K1 = (if hasOnCall (cl_ctx cl) then emit (OnCall (cl_name cl) [ObjRef a]) K else K)"
  have cell1: "cellAt (heap K1) a = Some (ArrayCell (map (\<lambda>x. Num (Fin x)) xs))"
    using cell by (simp add: K1_def emit_def)
  let ?sc = "(seedScope (cl_ctx cl))(''items'' \<mapsto> ObjRef a)"
  have items: "?sc ''items'' = Some (ObjRef a)" by simp
  from sum_block [where sc = ?sc, OF add cell1 items fuel, of b "cl_ctx cl"] obtain sc' where
    r: "executeBlock b h (n + 4) sumArrayBody ?sc (cl_ctx cl) K1 = Some (Inr (None, sc'), K1)"
    and s: "sc' ''total'' = Some (Num (Fin (sum_list xs)))" by blast
  define m where "m = n + 3"
  have four: "n + 4 = Suc m" and five: "n + 5 = Suc (Suc m)" by (simp_all add: m_def)
  have ret: "evalExpr b h (Suc m) (RefExpr ''total'') sc' (cl_ctx cl) K1
      = Some (Inr (Num (Fin (sum_list xs))), K1)"
    using s by (simp add: ok_def)
  have "invoke b h (Suc (Suc m)) cl [ObjRef a] K
      = Some (Inr (Num (Fin (sum_list xs))),
          if hasOnReturn (cl_ctx cl) then emit (OnReturn (cl_name cl) (Num (Fin (sum_list xs)))) K1 else K1)"
    unfolding invoke_Suc Let_def
    using cl r [unfolded four] ret
    by (simp add: sumArray_def K1_def [symmetric] arg0_def andThen_simps ok_def
        del: executeBlock_simps)
  then show ?thesis unfolding five by (simp add: returned_def)
qed

lemma let_in_then:
  assumes "evalExpr b h (Suc n) c sc ctx K = Some (Inr cv, K1)" and "truthy cv"
    and "executeBlock b h (Suc n) bs sc ctx K1 = Some (Inr (None, sc1), K2)"
    and "evalExpr b h n e sc1 ctx K2 = Some (Inr v, K3)"
  shows "executeBlock b h (Suc (Suc n)) (IfStmt c (bs @ [LetStmt x e]) el # rest) sc ctx K
       = executeBlock b h (Suc (Suc n)) rest (sc1(x \<mapsto> v)) ctx K3"
  using assms(1,2) block_ending_in_let [OF assms(3,4), of x]
  by (simp add: andThen_simps del: executeBlock_simps(1))

lemma let_in_else:
  assumes "evalExpr b h (Suc n) c sc ctx K = Some (Inr cv, K1)" and "\<not> truthy cv"
    and "executeBlock b h (Suc n) bs sc ctx K1 = Some (Inr (None, sc1), K2)"
    and "evalExpr b h n e sc1 ctx K2 = Some (Inr v, K3)"
  shows "executeBlock b h (Suc (Suc n)) (IfStmt c t (Some (bs @ [LetStmt x e])) # rest) sc ctx K
       = executeBlock b h (Suc (Suc n)) rest (sc1(x \<mapsto> v)) ctx K3"
  using assms(1,2) block_ending_in_let [OF assms(3,4), of x]
  by (simp add: andThen_simps del: executeBlock_simps(1))

lemma let_in_for:
  assumes run: "executeStmt b h (Suc (Suc n)) (ForStmt item src (bs @ [LetStmt x e])) sc ctx K
                  = Some (Inr (None, sc'), K')"
    and src: "evalExpr b h (Suc n) src sc ctx K = Some (Inr it, K1)"
    and ne: "0 < lengthOf (heap K1) it"
  shows "\<exists>sc0 K0 sc1 K2 v. executeBlock b h (Suc n) bs sc0 ctx K0 = Some (Inr (None, sc1), K2)
      \<and> evalExpr b h n e sc1 ctx K2 = Some (Inr v, K') \<and> sc' = sc1(x \<mapsto> v)"
proof -
  let ?blk = "\<lambda>sc. executeBlock b h (Suc n) (bs @ [LetStmt x e]) sc ctx"
  have "\<exists>sc0 K0. ?blk sc0 K0 = Some (Inr (None, sc'), K')"
  proof (cases it)
    case (Str s)
    with run src have "forLoop ?blk item (map (\<lambda>c. Str [c]) s) sc K1 = Some (Inr (None, sc'), K')"
      by (simp add: andThen_simps raise_def split: if_splits)
    from forLoop_last [OF this] ne Str show ?thesis by (auto simp add: lengthOf_def)
  next
    case (ObjRef a)
    with run src have "forOfArray ?blk item a (Suc n) 0 sc K1 = Some (Inr (None, sc'), K')"
      by (simp add: andThen_simps raise_def del: forOfArray.simps split: if_splits)
    from forOfArray_last [OF this] ne ObjRef show ?thesis by auto
  qed (use ne in \<open>simp_all add: lengthOf_def\<close>)
  then obtain sc0 K0 where "?blk sc0 K0 = Some (Inr (None, sc'), K')" by blast
  from block_ended_in_let [OF this] show ?thesis by blast
qed

lemma let_in_while:
  assumes run: "executeStmt b h (Suc (Suc n)) (WhileStmt g (bs @ [LetStmt x e])) sc ctx K
                  = Some (Inr (None, sc'), K')"
    and g: "evalExpr b h (Suc n) g sc ctx K = Some (Inr gv, K1)" and t: "truthy gv"
  shows "\<exists>sc0 K0 sc1 K2 v K3. executeBlock b h (Suc n) bs sc0 ctx K0 = Some (Inr (None, sc1), K2)
      \<and> evalExpr b h n e sc1 ctx K2 = Some (Inr v, K3) \<and> sc' = sc1(x \<mapsto> v)"
proof -
  let ?blk = "\<lambda>sc. executeBlock b h (Suc n) (bs @ [LetStmt x e]) sc ctx"
  from run have "whileLoop b (\<lambda>sc. evalExpr b h (Suc n) g sc ctx) ?blk (Suc n) 0 sc K
                  = Some (Inr (None, sc'), K')"
    by (simp del: whileLoop.simps)
  from whileLoop_last [OF this] g t obtain sc0 K0 Kb where "?blk sc0 K0 = Some (Inr (None, sc'), Kb)"
    by auto
  from block_ended_in_let [OF this] show ?thesis by blast
qed

lemma push_in_loop:
  "cellAfter ''alias''
     (executeBlock SrcTs exampleHost 9 pushingBody [''items'' \<mapsto> ObjRef 0] None
        (withArray oneToFive (newCompiler exampleHost)))
   = Some (ArrayCell oneToFive)"
  by code_simp





end
